theory Spec2Isabelle
  imports Main "HOL-Library.Sublist" "HOL-Library.AList"
begin

section \<open>Strings\<close>

text \<open>
  A JavaScript string is a sequence of UTF-16 code units. The model keeps each code
  unit as a natural number; \<open>js ''abc''\<close> is the string with the code units of an
  ASCII literal. The backquote (code unit 96) is always written by its number.
\<close>

type_synonym jstr = "nat list"

abbreviation js :: "string \<Rightarrow> jstr" where
  "js s \<equiv> map of_char s"

definition bq :: nat where
  "bq = 96"

text \<open>
  The white space of the regular expression class \<open>\s\<close> and of
  \<open>String.prototype.trim\<close>: the ECMAScript WhiteSpace and LineTerminator code
  points.
\<close>

definition is_space :: "nat \<Rightarrow> bool" where
  "is_space c \<longleftrightarrow>
     c = 9 \<or> c = 10 \<or> c = 11 \<or> c = 12 \<or> c = 13 \<or> c = 32 \<or> c = 160 \<or> c = 5760 \<or>
     (8192 \<le> c \<and> c \<le> 8202) \<or> c = 8232 \<or> c = 8233 \<or> c = 8239 \<or> c = 8287 \<or>
     c = 12288 \<or> c = 65279"

definition trim :: "jstr \<Rightarrow> jstr" where
  "trim s = rev (dropWhile is_space (rev (dropWhile is_space s)))"

section \<open>The two regular expressions of the handler\<close>

text \<open>
  \<open>generatedContent.match(re)\<close> runs a backtracking matcher. The fragment the handler
  uses is modelled as it executes: a pattern is a sequence of nodes, a node is one
  literal code unit or a repetition \<open>c*\<close> (greedy) or \<open>c*?\<close> (lazy) of a class, and a
  repetition may be the capture group. \<open>rmatch\<close> matches a pattern at the start of a
  string and returns the matched text with the captured groups; a greedy repetition
  tries one more code unit before it tries to stop, a lazy one tries to stop first.
  \<open>rsearch\<close> is the search of \<open>match\<close>: the leftmost start position that matches.
\<close>

datatype cls = Space | AnyChar

datatype mode = Greedy | Lazy

datatype node = Chr nat | Rep mode cls bool

fun in_cls :: "cls \<Rightarrow> nat \<Rightarrow> bool" where
  "in_cls Space c = is_space c"
| "in_cls AnyChar c = True"

type_synonym rmatch_result = "jstr \<times> jstr list"

fun grow :: "bool \<Rightarrow> nat \<Rightarrow> rmatch_result \<Rightarrow> rmatch_result" where
  "grow cap x (w, g) =
     (x # w, if cap then (case g of [] \<Rightarrow> [] | p # gs \<Rightarrow> (x # p) # gs) else g)"

fun opened :: "bool \<Rightarrow> rmatch_result \<Rightarrow> rmatch_result" where
  "opened cap (w, g) = (w, if cap then [] # g else g)"

fun rmatch :: "node list \<Rightarrow> jstr \<Rightarrow> rmatch_result option" where
  "rmatch [] s = Some ([], [])"
| "rmatch (Chr c # r) [] = None"
| "rmatch (Chr c # r) (x # xs) =
     (if x = c then map_option (grow False x) (rmatch r xs) else None)"
| "rmatch (Rep Greedy cl cap # r) [] = map_option (opened cap) (rmatch r [])"
| "rmatch (Rep Greedy cl cap # r) (x # xs) =
     (if in_cls cl x
      then (case rmatch (Rep Greedy cl cap # r) xs of
              Some res \<Rightarrow> Some (grow cap x res)
            | None \<Rightarrow> map_option (opened cap) (rmatch r (x # xs)))
      else map_option (opened cap) (rmatch r (x # xs)))"
| "rmatch (Rep Lazy cl cap # r) [] = map_option (opened cap) (rmatch r [])"
| "rmatch (Rep Lazy cl cap # r) (x # xs) =
     (case rmatch r (x # xs) of
        Some res \<Rightarrow> Some (opened cap res)
      | None \<Rightarrow>
          if in_cls cl x
          then map_option (grow cap x) (rmatch (Rep Lazy cl cap # r) xs)
          else None)"

fun rsearch :: "node list \<Rightarrow> jstr \<Rightarrow> rmatch_result option" where
  "rsearch re [] = rmatch re []"
| "rsearch re (x # xs) =
     (case rmatch re (x # xs) of Some res \<Rightarrow> Some res | None \<Rightarrow> rsearch re xs)"

text \<open>
  The opening fence (three backquotes and \<open>json\<close>) and the closing fence (three
  backquotes).
\<close>

definition fence_open :: jstr where
  "fence_open = [bq, bq, bq] @ js ''json''"

definition fence_close :: jstr where
  "fence_close = [bq, bq, bq]"

text \<open>
  The two expressions of lines 90 and 91 of \<open>index.ts\<close>. The first: the opening fence,
  \<open>\s*\<close>, the group \<open>([\s\S]*?)\<close>, \<open>\s*\<close>, the closing fence. The second:
  \<open>\{[\s\S]*\}\<close>.
\<close>

definition fence_re :: "node list" where
  "fence_re = map Chr fence_open @
     [Rep Greedy Space False, Rep Lazy AnyChar True, Rep Greedy Space False] @
     map Chr fence_close"

definition brace_re :: "node list" where
  "brace_re = [Chr 123, Rep Greedy AnyChar False, Chr 125]"

text \<open>
  Lines 90 to 97: \<open>jsonMatch = content.match(fence) || content.match(braces)\<close>, and the
  text handed to \<open>JSON.parse\<close>: \<open>jsonMatch[1] || jsonMatch[0]\<close> when there is a match
  (an empty or missing group 1 is falsy), the whole content otherwise.
\<close>

definition jsonMatch :: "jstr \<Rightarrow> rmatch_result option" where
  "jsonMatch content =
     (case rsearch fence_re content of
        Some m \<Rightarrow> Some m
      | None \<Rightarrow> rsearch brace_re content)"

definition candidate :: "jstr \<Rightarrow> jstr" where
  "candidate content =
     (case jsonMatch content of
        Some (m0, caps) \<Rightarrow>
          (case caps of g1 # _ \<Rightarrow> if g1 \<noteq> [] then g1 else m0 | [] \<Rightarrow> m0)
      | None \<Rightarrow> content)"

section \<open>JSON values\<close>

text \<open>
  The values of \<open>JSON.parse\<close>. An object keeps its properties in the order of the
  text, as an association list with one entry for each key (JavaScript lists the keys
  that are array indices first; the model keeps them where they stand). A number is
  kept exactly, as the decimal \<open>m / 10^k\<close> with \<open>k = 0\<close> or \<open>m\<close> not divisible by
  ten, where JavaScript rounds to a double.
\<close>

datatype json =
    JNull
  | JBool bool
  | JNum int nat
  | JStr jstr
  | JArr "json list"
  | JObj "(jstr \<times> json) list"

text \<open>What an expression can hold: a JSON value or \<open>undefined\<close>.\<close>

datatype jsval = Undefined | Val json

section \<open>JSON.parse\<close>

text \<open>
  The JSON grammar (ECMA-404) as \<open>JSON.parse\<close> reads it: white space is space, tab, line
  feed and carriage return; a string holds no raw control character; a number has no
  leading zero; nothing but white space may follow the value. A repeated key keeps its
  first position and takes the last value.
\<close>

definition is_json_ws :: "nat \<Rightarrow> bool" where
  "is_json_ws c \<longleftrightarrow> c = 32 \<or> c = 9 \<or> c = 10 \<or> c = 13"

definition skip_ws :: "jstr \<Rightarrow> jstr" where
  "skip_ws s = dropWhile is_json_ws s"

definition is_digit :: "nat \<Rightarrow> bool" where
  "is_digit c \<longleftrightarrow> 48 \<le> c \<and> c \<le> 57"

definition hex_val :: "nat \<Rightarrow> nat option" where
  "hex_val c =
     (if 48 \<le> c \<and> c \<le> 57 then Some (c - 48)
      else if 97 \<le> c \<and> c \<le> 102 then Some (c - 87)
      else if 65 \<le> c \<and> c \<le> 70 then Some (c - 55)
      else None)"

fun parse_hex4 :: "jstr \<Rightarrow> (nat \<times> jstr) option" where
  "parse_hex4 (a # b # c # d # r) =
     (case (hex_val a, hex_val b, hex_val c, hex_val d) of
        (Some h3, Some h2, Some h1, Some h0) \<Rightarrow> Some (4096 * h3 + 256 * h2 + 16 * h1 + h0, r)
      | _ \<Rightarrow> None)"
| "parse_hex4 _ = None"

definition simple_escape :: "nat \<Rightarrow> nat option" where
  "simple_escape e =
     (if e = 34 then Some 34
      else if e = 92 then Some 92
      else if e = 47 then Some 47
      else if e = 98 then Some 8
      else if e = 102 then Some 12
      else if e = 110 then Some 10
      else if e = 114 then Some 13
      else if e = 116 then Some 9
      else None)"

lemma parse_hex4_length: "parse_hex4 s = Some (u, r) \<Longrightarrow> length s = length r + 4"
  by (cases s rule: parse_hex4.cases) (auto split: option.splits)

function parse_chars :: "jstr \<Rightarrow> (jstr \<times> jstr) option" where
  "parse_chars [] = None"
| "parse_chars (c # cs) =
     (if c = 34 then Some ([], cs)
      else if c = 92 then
        (case cs of
           [] \<Rightarrow> None
         | e # r \<Rightarrow>
             if e = 117 then
               (case parse_hex4 r of
                  None \<Rightarrow> None
                | Some (u, r') \<Rightarrow> map_option (\<lambda>(s, t). (u # s, t)) (parse_chars r'))
             else
               (case simple_escape e of
                  None \<Rightarrow> None
                | Some u \<Rightarrow> map_option (\<lambda>(s, t). (u # s, t)) (parse_chars r)))
      else if c < 32 then None
      else map_option (\<lambda>(s, t). (c # s, t)) (parse_chars cs))"
  by pat_completeness auto
termination
  by (relation "measure length") (auto dest: parse_hex4_length)

lemma parse_chars_length: "parse_chars s = Some (t, r) \<Longrightarrow> length r < length s"
proof (induction s arbitrary: t r rule: parse_chars.induct)
  case 1
  then show ?case by simp
next
  case (2 c cs)
  show ?case
  proof (cases "c = 34")
    case True
    with 2 show ?thesis by simp
  next
    case False
    note nq = this
    show ?thesis
    proof (cases "c = 92")
      case False
      with nq 2 show ?thesis by (fastforce split: if_splits)
    next
      case True
      then show ?thesis
        using nq 2 by (fastforce split: if_splits list.splits option.splits dest: parse_hex4_length)
    qed
  qed
qed

lemma dropWhile_Cons_length: "dropWhile P xs = y # ys \<Longrightarrow> length ys < length xs"
  using length_dropWhile_le [of P xs] by simp

lemma dropWhile_length_less: "length xs < n \<Longrightarrow> length (dropWhile P xs) < n"
  using length_dropWhile_le [of P xs] by simp

definition digits_val :: "jstr \<Rightarrow> nat" where
  "digits_val ds = foldl (\<lambda>n d. 10 * n + (d - 48)) 0 ds"

fun normalize :: "int \<Rightarrow> nat \<Rightarrow> json" where
  "normalize m 0 = JNum m 0"
| "normalize m (Suc k) = (if m mod 10 = 0 then normalize (m div 10) k else JNum m (Suc k))"

definition decimal :: "bool \<Rightarrow> nat \<Rightarrow> int \<Rightarrow> json" where
  "decimal neg m e =
     (let sm = (if neg then - int m else int m)
      in if 0 \<le> e then JNum (sm * 10 ^ nat e) 0 else normalize sm (nat (- e)))"

definition parse_exponent :: "jstr \<Rightarrow> (int \<times> jstr) option" where
  "parse_exponent s =
     (case s of
        [] \<Rightarrow> Some (0, s)
      | c # cs \<Rightarrow>
          if c = 101 \<or> c = 69 then
            (let (neg, r) = (case cs of
                               [] \<Rightarrow> (False, cs)
                             | g # r' \<Rightarrow> if g = 45 then (True, r') else if g = 43 then (False, r') else (False, cs));
                 ds = takeWhile is_digit r
             in if ds = [] then None
                else Some (if neg then - int (digits_val ds) else int (digits_val ds), dropWhile is_digit r))
          else Some (0, s))"

definition parse_fraction :: "jstr \<Rightarrow> (jstr \<times> jstr) option" where
  "parse_fraction s =
     (case s of
        [] \<Rightarrow> Some ([], s)
      | c # cs \<Rightarrow>
          if c = 46 then
            (let ds = takeWhile is_digit cs
             in if ds = [] then None else Some (ds, dropWhile is_digit cs))
          else Some ([], s))"

definition parse_int_part :: "jstr \<Rightarrow> (jstr \<times> jstr) option" where
  "parse_int_part s =
     (case s of
        [] \<Rightarrow> None
      | c # cs \<Rightarrow>
          if c = 48 then Some ([48], cs)
          else if is_digit c then Some (takeWhile is_digit s, dropWhile is_digit s)
          else None)"

definition parse_number :: "jstr \<Rightarrow> (json \<times> jstr) option" where
  "parse_number s =
     (let (neg, s1) = (case s of [] \<Rightarrow> (False, s) | c # cs \<Rightarrow> if c = 45 then (True, cs) else (False, s))
      in case parse_int_part s1 of
           None \<Rightarrow> None
         | Some (ip, s2) \<Rightarrow>
             (case parse_fraction s2 of
                None \<Rightarrow> None
              | Some (fp, s3) \<Rightarrow>
                  (case parse_exponent s3 of
                     None \<Rightarrow> None
                   | Some (e, s4) \<Rightarrow>
                       Some (decimal neg (digits_val (ip @ fp)) (e - int (length fp)), s4))))"

fun parse_literal :: "jstr \<Rightarrow> json \<Rightarrow> jstr \<Rightarrow> (json \<times> jstr) option" where
  "parse_literal lit v s =
     (if take (length lit) s = lit then Some (v, drop (length lit) s) else None)"

function parse_value :: "jstr \<Rightarrow> (json \<times> jstr) option"
  and parse_elements :: "jstr \<Rightarrow> (json list \<times> jstr) option"
  and parse_members :: "jstr \<Rightarrow> ((jstr \<times> json) list \<times> jstr) option"
where
  "parse_value s =
     (case s of
        [] \<Rightarrow> None
      | c # cs \<Rightarrow>
          if c = 123 then
            (case skip_ws cs of
               [] \<Rightarrow> None
             | d # r \<Rightarrow>
                 if d = 125 then Some (JObj [], r)
                 else (case parse_members (d # r) of
                         None \<Rightarrow> None
                       | Some (kvs, r') \<Rightarrow>
                           Some (JObj (foldl (\<lambda>al (k, v). AList.update k v al) [] kvs), r')))
          else if c = 91 then
            (case skip_ws cs of
               [] \<Rightarrow> None
             | d # r \<Rightarrow>
                 if d = 93 then Some (JArr [], r)
                 else (case parse_elements (d # r) of
                         None \<Rightarrow> None
                       | Some (vs, r') \<Rightarrow> Some (JArr vs, r')))
          else if c = 34 then map_option (\<lambda>(t, r). (JStr t, r)) (parse_chars cs)
          else if c = 116 then parse_literal (js ''true'') (JBool True) s
          else if c = 102 then parse_literal (js ''false'') (JBool False) s
          else if c = 110 then parse_literal (js ''null'') JNull s
          else parse_number s)"
| "parse_elements s =
     (case parse_value s of
        None \<Rightarrow> None
      | Some (v, r) \<Rightarrow>
          if length r < length s then
            (case skip_ws r of
               [] \<Rightarrow> None
             | d # r' \<Rightarrow>
                 if d = 44 then
                   map_option (\<lambda>(vs, t). (v # vs, t)) (parse_elements (skip_ws r'))
                 else if d = 93 then Some ([v], r')
                 else None)
          else None)"
| "parse_members s =
     (case s of
        [] \<Rightarrow> None
      | q # cs \<Rightarrow>
          if q = 34 then
            (case parse_chars cs of
               None \<Rightarrow> None
             | Some (k, r) \<Rightarrow>
                 (case skip_ws r of
                    [] \<Rightarrow> None
                  | c # r1 \<Rightarrow>
                      if c = 58 then
                        (case parse_value (skip_ws r1) of
                           None \<Rightarrow> None
                         | Some (v, r2) \<Rightarrow>
                             if length r2 < length (skip_ws r1) then
                               (case skip_ws r2 of
                                  [] \<Rightarrow> None
                                | d # r3 \<Rightarrow>
                                    if d = 44 then
                                      map_option (\<lambda>(kvs, t). ((k, v) # kvs, t))
                                        (parse_members (skip_ws r3))
                                    else if d = 125 then Some ([(k, v)], r3)
                                    else None)
                             else None)
                      else None))
          else None)"
  by pat_completeness auto
termination
proof (relation "measure (\<lambda>x. case x of
            Inl s \<Rightarrow> 2 * length s
          | Inr (Inl s) \<Rightarrow> 2 * length s + 1
          | Inr (Inr s) \<Rightarrow> 2 * length s + 1)", goal_cases)
  case 1
  show ?case by simp
next
  case (2 s c cs d r)
  then show ?case
    using dropWhile_Cons_length [of is_json_ws cs d r] by (simp add: skip_ws_def)
next
  case (3 s c cs d r)
  then show ?case
    using dropWhile_Cons_length [of is_json_ws cs d r] by (simp add: skip_ws_def)
next
  case (4 s)
  show ?case by simp
next
  case (5 s x v r d r')
  then show ?case
    using dropWhile_Cons_length [of is_json_ws r d r'] length_dropWhile_le [of is_json_ws r']
    by (simp add: skip_ws_def)
next
  case (6 s q cs x k r c r1)
  then show ?case
    using parse_chars_length [of cs k r] dropWhile_Cons_length [of is_json_ws r c r1]
      length_dropWhile_le [of is_json_ws r1]
    by (simp add: skip_ws_def)
next
  case (7 s q cs x k r c r1 y v r2 d r3)
  then show ?case
    using parse_chars_length [of cs k r] dropWhile_Cons_length [of is_json_ws r c r1]
      length_dropWhile_le [of is_json_ws r1] dropWhile_Cons_length [of is_json_ws r2 d r3]
      length_dropWhile_le [of is_json_ws r3]
    by (simp add: skip_ws_def)
qed

declare parse_value.simps [simp del] parse_elements.simps [simp del] parse_members.simps [simp del]

definition json_parse :: "jstr \<Rightarrow> json option" where
  "json_parse s =
     (case parse_value (skip_ws s) of
        None \<Rightarrow> None
      | Some (v, r) \<Rightarrow> if skip_ws r = [] then Some v else None)"

section \<open>JSON.stringify and string conversion\<close>

text \<open>
  Decimal digits of a natural number, and \<open>Number::toString\<close> on the exact decimals of
  the model: an integer prints its digits, a fraction prints its integer part, a point
  and its \<open>k\<close> fraction digits. (JavaScript switches to exponent notation from
  \<open>10^21\<close> on and below \<open>10^-6\<close>; both notations denote the same number.)
\<close>

function show_nat :: "nat \<Rightarrow> jstr" where
  "show_nat n = (if n < 10 then [48 + n] else show_nat (n div 10) @ [48 + n mod 10])"
  by pat_completeness auto
termination
  by (relation "measure id") auto

declare show_nat.simps [simp del]

definition pad_digits :: "nat \<Rightarrow> nat \<Rightarrow> jstr" where
  "pad_digits k n = replicate (k - length (show_nat n)) 48 @ show_nat n"

definition show_num :: "int \<Rightarrow> nat \<Rightarrow> jstr" where
  "show_num m k =
     (if m < 0 then [45] else []) @
     (if k = 0 then show_nat (nat \<bar>m\<bar>)
      else show_nat (nat \<bar>m\<bar> div 10 ^ k) @ [46] @ pad_digits k (nat \<bar>m\<bar> mod 10 ^ k))"

text \<open>
  \<open>QuoteJSONString\<close>: the two-character escapes, \<open>\uXXXX\<close> (lower-case digits) for
  the other control characters and for a surrogate that is not half of a pair, every
  other code unit as it is.
\<close>

definition hex_digit :: "nat \<Rightarrow> nat" where
  "hex_digit d = (if d < 10 then 48 + d else 87 + d)"

definition unicode_escape :: "nat \<Rightarrow> jstr" where
  "unicode_escape c =
     [92, 117, hex_digit (c div 4096 mod 16), hex_digit (c div 256 mod 16),
      hex_digit (c div 16 mod 16), hex_digit (c mod 16)]"

definition is_high_surrogate :: "nat \<Rightarrow> bool" where
  "is_high_surrogate c \<longleftrightarrow> 55296 \<le> c \<and> c \<le> 56319"

definition is_low_surrogate :: "nat \<Rightarrow> bool" where
  "is_low_surrogate c \<longleftrightarrow> 56320 \<le> c \<and> c \<le> 57343"

definition short_escape :: "nat \<Rightarrow> nat option" where
  "short_escape c =
     (if c = 8 then Some 98
      else if c = 9 then Some 116
      else if c = 10 then Some 110
      else if c = 12 then Some 102
      else if c = 13 then Some 114
      else if c = 34 then Some 34
      else if c = 92 then Some 92
      else None)"

fun escape :: "jstr \<Rightarrow> jstr" where
  "escape [] = []"
| "escape (c # cs) =
     (case short_escape c of
        Some e \<Rightarrow> [92, e] @ escape cs
      | None \<Rightarrow>
          if c < 32 then unicode_escape c @ escape cs
          else if is_high_surrogate c then
            (case cs of
               [] \<Rightarrow> unicode_escape c
             | d # ds \<Rightarrow>
                 if is_low_surrogate d then c # d # escape ds
                 else unicode_escape c @ escape cs)
          else if is_low_surrogate c then unicode_escape c @ escape cs
          else c # escape cs)"

definition quote :: "jstr \<Rightarrow> jstr" where
  "quote s = [34] @ escape s @ [34]"

fun commas :: "jstr list \<Rightarrow> jstr" where
  "commas [] = []"
| "commas [x] = x"
| "commas (x # y # ys) = x @ [44] @ commas (y # ys)"

text \<open>\<open>JSON.stringify(value)\<close>: no white space between the tokens.\<close>

fun stringify :: "json \<Rightarrow> jstr" where
  "stringify JNull = js ''null''"
| "stringify (JBool b) = (if b then js ''true'' else js ''false'')"
| "stringify (JNum m k) = show_num m k"
| "stringify (JStr s) = quote s"
| "stringify (JArr vs) = [91] @ commas (map stringify vs) @ [93]"
| "stringify (JObj kvs) =
     [123] @ commas (map (\<lambda>(k, v). quote k @ [58] @ stringify v) kvs) @ [125]"

text \<open>
  \<open>JSON.stringify(value, null, 2)\<close>: each element and each property on a line of its
  own, indented by two spaces for each level; a colon and a space after a key.
\<close>

fun lines_sep :: "jstr \<Rightarrow> jstr list \<Rightarrow> jstr" where
  "lines_sep sep [] = []"
| "lines_sep sep [x] = x"
| "lines_sep sep (x # y # ys) = x @ sep @ lines_sep sep (y # ys)"

fun pretty :: "nat \<Rightarrow> json \<Rightarrow> jstr" where
  "pretty ind (JArr vs) =
     (if vs = [] then js ''[]''
      else [91, 10] @ replicate (ind + 2) 32 @
           lines_sep ([44, 10] @ replicate (ind + 2) 32) (map (pretty (ind + 2)) vs) @
           [10] @ replicate ind 32 @ [93])"
| "pretty ind (JObj kvs) =
     (if kvs = [] then js ''{}''
      else [123, 10] @ replicate (ind + 2) 32 @
           lines_sep ([44, 10] @ replicate (ind + 2) 32)
             (map (\<lambda>(k, v). quote k @ [58, 32] @ pretty (ind + 2) v) kvs) @
           [10] @ replicate ind 32 @ [125])"
| "pretty ind v = stringify v"

text \<open>
  \<open>JSON.stringify\<close> of \<open>undefined\<close> is \<open>undefined\<close>, which becomes the text
  \<open>undefined\<close> where a string is required.
\<close>

definition stringify_val :: "jsval \<Rightarrow> jstr option" where
  "stringify_val x = (case x of Undefined \<Rightarrow> None | Val v \<Rightarrow> Some (stringify v))"

definition pretty_val :: "jsval \<Rightarrow> jstr option" where
  "pretty_val x = (case x of Undefined \<Rightarrow> None | Val v \<Rightarrow> Some (pretty 0 v))"

definition string_of :: "jstr option \<Rightarrow> jstr" where
  "string_of x = (case x of None \<Rightarrow> js ''undefined'' | Some s \<Rightarrow> s)"

section \<open>Reading values\<close>

text \<open>
  Truthiness, and property access for the names the program reads (\<open>prompt\<close>,
  \<open>image\<close>, \<open>choices\<close>, \<open>message\<close>, \<open>content\<close>, \<open>routine\<close>, none of which a
  prototype defines): an own property of an object, \<open>undefined\<close> on every other value.
  Access on \<open>null\<close> or \<open>undefined\<close> throws; the callers model that.
\<close>

fun truthy :: "jsval \<Rightarrow> bool" where
  "truthy Undefined = False"
| "truthy (Val JNull) = False"
| "truthy (Val (JBool b)) = b"
| "truthy (Val (JNum m k)) = (m \<noteq> 0)"
| "truthy (Val (JStr s)) = (s \<noteq> [])"
| "truthy (Val (JArr vs)) = True"
| "truthy (Val (JObj kvs)) = True"

fun get_prop :: "json \<Rightarrow> jstr \<Rightarrow> jsval" where
  "get_prop (JObj kvs) k = (case map_of kvs k of None \<Rightarrow> Undefined | Some v \<Rightarrow> Val v)"
| "get_prop v k = Undefined"

text \<open>The element \<open>[0]\<close>: of an array, of a string, or the property \<open>0\<close> of an object.\<close>

fun get_first :: "json \<Rightarrow> jsval" where
  "get_first (JArr vs) = (case vs of [] \<Rightarrow> Undefined | v # _ \<Rightarrow> Val v)"
| "get_first (JStr s) = (case s of [] \<Rightarrow> Undefined | c # _ \<Rightarrow> Val (JStr [c]))"
| "get_first (JObj kvs) = get_prop (JObj kvs) (js ''0'')"
| "get_first v = Undefined"

text \<open>
  \<open>ToString\<close>, as a template literal applies it. An array joins its elements with
  commas (\<open>null\<close> as the empty string); an object is \<open>[object Object]\<close>, unless an own
  property \<open>toString\<close> hides the method, and then the conversion throws a TypeError
  (\<open>None\<close>).
\<close>

fun to_string :: "json \<Rightarrow> jstr option"
  and join_elements :: "json list \<Rightarrow> jstr option"
where
  "to_string JNull = Some (js ''null'')"
| "to_string (JBool b) = Some (if b then js ''true'' else js ''false'')"
| "to_string (JNum m k) = Some (show_num m k)"
| "to_string (JStr s) = Some s"
| "to_string (JArr vs) = join_elements vs"
| "to_string (JObj kvs) =
     (if js ''toString'' \<in> set (map fst kvs) then None else Some (js ''[object Object]''))"
| "join_elements [] = Some []"
| "join_elements (v # vs) =
     (case (if v = JNull then Some [] else to_string v) of
        None \<Rightarrow> None
      | Some a \<Rightarrow>
          if vs = [] then Some a
          else (case join_elements vs of None \<Rightarrow> None | Some b \<Rightarrow> Some (a @ [44] @ b)))"

definition to_string_val :: "jsval \<Rightarrow> jstr option" where
  "to_string_val x = (case x of Undefined \<Rightarrow> Some (js ''undefined'') | Val v \<Rightarrow> to_string v)"

section \<open>The request handler (supabase/functions/generate/index.ts)\<close>

text \<open>
  What the handler reads: the request (its method and the outcome of \<open>req.json()\<close>,
  \<open>None\<close> when the body is not JSON), the environment variable \<open>GEMINI_API_KEY\<close>,
  and how the provider answers the call made with \<open>fetch\<close>.
\<close>

record request =
  req_method :: jstr
  req_json :: "json option"

record env =
  gemini_api_key :: "jstr option"

record provider_call =
  call_url :: jstr
  call_method :: jstr
  call_headers :: "(jstr \<times> jstr) list"
  call_body :: json

record provider_response =
  resp_status :: nat
  resp_status_text :: jstr
  resp_body :: jstr

datatype fetch_result = FetchRejected | FetchResponse provider_response

text \<open>\<open>response.ok\<close>: a status from 200 to 299.\<close>

definition resp_ok :: "provider_response \<Rightarrow> bool" where
  "resp_ok r \<longleftrightarrow> 200 \<le> resp_status r \<and> resp_status r \<le> 299"

text \<open>
  What is thrown inside the outer \<open>try\<close>: an \<open>Error\<close> the handler constructs, with its
  message, or an exception of the platform, whose message the platform words.
\<close>

datatype platform_error =
    RequestBodyNotJson
  | DestructureOfNull
  | PromptNotConvertible
  | FetchFailed
  | ResponseBodyNotJson
  | PropertyOfNullish

datatype failure = Thrown jstr | Platform platform_error

datatype detail = Message jstr | PlatformMessage platform_error

fun failure_detail :: "failure \<Rightarrow> detail" where
  "failure_detail (Thrown m) = Message m"
| "failure_detail (Platform e) = PlatformMessage e"

text \<open>
  The response. \<open>RoutineBody v\<close> is the body \<open>JSON.stringify({ routine: v })\<close>, and
  \<open>ErrorBody e m\<close> the body \<open>JSON.stringify({ error: e, message: m })\<close>.
\<close>

datatype body = TextBody jstr | RoutineBody json | ErrorBody jstr detail

record response =
  status :: nat
  headers :: "(jstr \<times> jstr) list"
  body :: body

datatype log_entry =
    LogGeminiError jstr
  | LogParseError
  | LogGeneratedContent jsval
  | LogGenerateError detail

record outcome =
  response :: response
  calls :: "provider_call list"
  logged :: "log_entry list"

definition corsHeaders :: "(jstr \<times> jstr) list" where
  "corsHeaders =
     [(js ''Access-Control-Allow-Origin'', js ''*''),
      (js ''Access-Control-Allow-Headers'',
       js ''authorization, x-client-info, apikey, content-type'')]"

definition json_headers :: "(jstr \<times> jstr) list" where
  "json_headers = corsHeaders @ [(js ''Content-Type'', js ''application/json'')]"

definition system_prompt :: jstr where
  \<open>system_prompt =
     js ''You are an expert routine designer and wellness coach. Create comprehensive, practical routines based on user requests. Always respond with a valid JSON object in this exact format:'' @ [10] @
     [10] @
     js ''{'' @ [10] @
     js ''  "title": "A compelling title for the routine",'' @ [10] @
     js ''  "description": "A brief description of what this routine achieves",'' @ [10] @
     js ''  "steps": ['' @ [10] @
     js ''    {'' @ [10] @
     js ''      "step": 1,'' @ [10] @
     js ''      "action": "Specific action to take",'' @ [10] @
     js ''      "duration": "Time estimate (optional)",'' @ [10] @
     js ''      "notes": "Additional tips or context (optional)"'' @ [10] @
     js ''    }'' @ [10] @
     js ''  ]'' @ [10] @
     js ''}'' @ [10] @
     [10] @
     js ''Make routines practical, achievable, and tailored to the user'' @ [39] @
     js ''s needs. Include realistic time estimates and helpful tips.''\<close>

text \<open>
  The content of the user message (\<open>messages[1].content\<close>): one of two templates
  around the prompt, chosen by the truthiness of \<open>image\<close>, and the note appended when
  \<open>image\<close> is truthy. \<open>None\<close> when the prompt cannot be converted to a string.
\<close>

definition image_sentence :: jstr where
  \<open>image_sentence = js ''. I'' @ [39] @ js ''ve also included an image for additional context.''\<close>

definition image_note :: jstr where
  \<open>image_note = [10, 10] @ js ''Note: Image context has been provided for additional guidance.''\<close>

definition user_message :: "jsval \<Rightarrow> jsval \<Rightarrow> jstr option" where
  \<open>user_message prompt image' =
     (case to_string_val prompt of
        None \<Rightarrow> None
      | Some p \<Rightarrow>
          (let content =
                 (if truthy image'
                  then js ''Create a routine based on this description: "'' @ p @ [34] @ image_sentence
                  else js ''Create a routine based on this description: "'' @ p @ [34])
           in Some (if truthy image' then content @ image_note else content)))\<close>

definition message :: "jstr \<Rightarrow> jstr \<Rightarrow> json" where
  "message role content = JObj [(js ''role'', JStr role), (js ''content'', JStr content)]"

definition provider_request :: "jstr \<Rightarrow> jstr \<Rightarrow> provider_call" where
  "provider_request key content =
     \<lparr> call_url = js ''https://generativelanguage.googleapis.com/v1beta/openai/chat/completions'',
       call_method = js ''POST'',
       call_headers =
         [(js ''Authorization'', js ''Bearer '' @ key),
          (js ''Content-Type'', js ''application/json'')],
       call_body =
         JObj [(js ''model'', JStr (js ''gemini-2.0-flash-exp'')),
               (js ''messages'',
                JArr [message (js ''system'') system_prompt, message (js ''user'') content]),
               (js ''temperature'', JNum 7 1),
               (js ''max_tokens'', JNum 1500 0)] \<rparr>"

text \<open>
  \<open>data.choices[0]?.message?.content\<close>. Reading \<open>choices\<close> of \<open>null\<close>, or \<open>[0]\<close> of
  a missing or \<open>null\<close> \<open>choices\<close>, throws a TypeError; each \<open>?.\<close> ends the chain with
  \<open>undefined\<close> on \<open>null\<close> or \<open>undefined\<close>.
\<close>

definition generated_content :: "json \<Rightarrow> failure + jsval" where
  "generated_content data =
     (if data = JNull then Inl (Platform PropertyOfNullish)
      else case get_prop data (js ''choices'') of
             Undefined \<Rightarrow> Inl (Platform PropertyOfNullish)
           | Val choices \<Rightarrow>
               if choices = JNull then Inl (Platform PropertyOfNullish)
               else (case get_first choices of
                       Undefined \<Rightarrow> Inr Undefined
                     | Val first \<Rightarrow>
                         if first = JNull then Inr Undefined
                         else (case get_prop first (js ''message'') of
                                 Undefined \<Rightarrow> Inr Undefined
                               | Val m \<Rightarrow>
                                   if m = JNull then Inr Undefined
                                   else Inr (get_prop m (js ''content'')))))"

text \<open>
  The inner \<open>try\<close> block: the extraction and \<open>JSON.parse\<close>. \<open>None\<close> is an exception
  caught by the inner \<open>catch\<close>: a syntax error of \<open>JSON.parse\<close>, or the TypeError of
  calling \<open>match\<close> on content that is not a string.
\<close>

definition extract_routine :: "jsval \<Rightarrow> json option" where
  "extract_routine generatedContent =
     (case generatedContent of
        Val (JStr content) \<Rightarrow> json_parse (candidate content)
      | _ \<Rightarrow> None)"

definition fallback_routine :: json where
  "fallback_routine =
     JObj [(js ''title'', JStr (js ''Custom Routine'')),
           (js ''description'', JStr (js ''A personalized routine based on your request'')),
           (js ''steps'',
            JArr [JObj [(js ''step'', JNum 1 0),
                        (js ''action'', JStr (js ''Start with the basics outlined in your request'')),
                        (js ''duration'', JStr (js ''Variable'')),
                        (js ''notes'', JStr (js ''Generated content could not be parsed properly''))]])]"

definition routineData :: "jsval \<Rightarrow> json" where
  "routineData generatedContent =
     (case extract_routine generatedContent of
        Some v \<Rightarrow> v
      | None \<Rightarrow> fallback_routine)"

text \<open>
  The outer \<open>try\<close> up to the content check, in the order of the source: what is
  done before the call (lines 15 to 56: the request body, the key, the messages), what
  is read from the answer (lines 73 to 84), and the two around the one call of
  \<open>fetch\<close>, with the calls made and the lines logged.
\<close>

definition prepare_call :: "env \<Rightarrow> request \<Rightarrow> failure + provider_call" where
  "prepare_call e req =
     (case req_json req of
        None \<Rightarrow> Inl (Platform RequestBodyNotJson)
      | Some b \<Rightarrow>
          if b = JNull then Inl (Platform DestructureOfNull)
          else
            (let prompt = get_prop b (js ''prompt'');
                 image' = get_prop b (js ''image'')
             in case gemini_api_key e of
                  None \<Rightarrow> Inl (Thrown (js ''GEMINI_API_KEY is not configured''))
                | Some geminiApiKey \<Rightarrow>
                    if geminiApiKey = []
                    then Inl (Thrown (js ''GEMINI_API_KEY is not configured''))
                    else
                      (case user_message prompt image' of
                         None \<Rightarrow> Inl (Platform PromptNotConvertible)
                       | Some content \<Rightarrow> Inr (provider_request geminiApiKey content))))"

definition read_content :: "fetch_result \<Rightarrow> (failure + jsval) \<times> log_entry list" where
  "read_content answer =
     (case answer of
        FetchRejected \<Rightarrow> (Inl (Platform FetchFailed), [])
      | FetchResponse r \<Rightarrow>
          if \<not> resp_ok r
          then (Inl (Thrown (js ''Gemini API request failed: '' @
                       show_nat (resp_status r) @ [32] @ resp_status_text r)),
                [LogGeminiError (resp_body r)])
          else
            (case json_parse (resp_body r) of
               None \<Rightarrow> (Inl (Platform ResponseBodyNotJson), [])
             | Some data \<Rightarrow>
                 (case generated_content data of
                    Inl f \<Rightarrow> (Inl f, [])
                  | Inr generatedContent \<Rightarrow>
                      if \<not> truthy generatedContent
                      then (Inl (Thrown (js ''No content generated from Gemini API'')), [])
                      else (Inr generatedContent, []))))"

type_synonym 'a traced = "'a \<times> provider_call list \<times> log_entry list"

definition obtain_content ::
  "env \<Rightarrow> (provider_call \<Rightarrow> fetch_result) \<Rightarrow> request \<Rightarrow> (failure + jsval) traced" where
  "obtain_content e fetch req =
     (case prepare_call e req of
        Inl f \<Rightarrow> (Inl f, [], [])
      | Inr call \<Rightarrow>
          (case read_content (fetch call) of (r, ls) \<Rightarrow> (r, [call], ls)))"

text \<open>
  The handler: the answer to a preflight request; otherwise status 200 with the
  routine (parsed, or the fallback when the inner \<open>catch\<close> ran), or status 500 with
  the error payload from the outer \<open>catch\<close>.
\<close>

definition preflight_response :: response where
  "preflight_response = \<lparr> status = 200, headers = corsHeaders, body = TextBody (js ''ok'') \<rparr>"

definition routine_response :: "json \<Rightarrow> response" where
  "routine_response routine =
     \<lparr> status = 200, headers = json_headers, body = RoutineBody routine \<rparr>"

definition error_response :: "failure \<Rightarrow> response" where
  "error_response f =
     \<lparr> status = 500, headers = json_headers,
       body = ErrorBody (js ''Failed to generate routine'') (failure_detail f) \<rparr>"

definition serve :: "env \<Rightarrow> (provider_call \<Rightarrow> fetch_result) \<Rightarrow> request \<Rightarrow> outcome" where
  "serve e fetch req =
     (if req_method req = js ''OPTIONS''
      then \<lparr> response = preflight_response, calls = [], logged = [] \<rparr>
      else case obtain_content e fetch req of
             (Inr generatedContent, cs, ls) \<Rightarrow>
               \<lparr> response = routine_response (routineData generatedContent),
                 calls = cs,
                 logged = ls @ (case extract_routine generatedContent of
                                  Some _ \<Rightarrow> []
                                | None \<Rightarrow> [LogParseError, LogGeneratedContent generatedContent]) \<rparr>
           | (Inl f, cs, ls) \<Rightarrow>
               \<lparr> response = error_response f,
                 calls = cs,
                 logged = ls @ [LogGenerateError (failure_detail f)] \<rparr>)"

section \<open>The routine editor (src/components/RoutineEditor.tsx)\<close>

text \<open>
  The state of the component: the six \<open>useState\<close> cells, the notifications shown with
  \<open>toast\<close>, the lines written with \<open>console.error\<close>, the slot \<open>aiRoutine\<close> of
  \<open>localStorage\<close> and the requests sent with \<open>fetch\<close>. \<open>generatedRoutine\<close> holds
  whatever value was stored in it (\<open>null\<close> at first); \<open>editableRoutine\<close> is \<open>None\<close>
  when \<open>JSON.stringify\<close> returned \<open>undefined\<close>.
\<close>

record image_file =
  file_name :: jstr
  file_size :: nat
  file_data_url :: "jstr option"

datatype toast = Toast jstr jstr bool

datatype console_entry = ErrorLoadingSaved | ErrorGenerating

record client_request =
  creq_url :: jstr
  creq_method :: jstr
  creq_headers :: "(jstr \<times> jstr) list"
  creq_body :: json

record editor =
  userInput :: jstr
  imageFile :: "image_file option"
  generatedRoutine :: jsval
  editableRoutine :: "jstr option"
  isGenerating :: bool
  isEditing :: bool
  toasts :: "toast list"
  console :: "console_entry list"
  storage :: "jstr option"
  requests :: "client_request list"

text \<open>
  How a call of \<open>fetch\<close> ends: it rejects, it resolves with a response (\<open>ok\<close> and the
  body), or it never settles (the component sets no timeout).
\<close>

datatype client_fetch_result = NetworkError | HttpResponse bool jstr | NeverSettles

text \<open>The first render, over what the storage slot holds.\<close>

definition initial :: "jstr option \<Rightarrow> editor" where
  "initial slot =
     \<lparr> userInput = [], imageFile = None, generatedRoutine = Val JNull,
       editableRoutine = Some [], isGenerating = False, isEditing = False,
       toasts = [], console = [], storage = slot, requests = [] \<rparr>"

text \<open>The effect that runs once on mount.\<close>

definition load_saved :: "editor \<Rightarrow> editor" where
  "load_saved st =
     (case storage st of
        None \<Rightarrow> st
      | Some savedRoutine \<Rightarrow>
          if savedRoutine = [] then st
          else (case json_parse savedRoutine of
                  None \<Rightarrow> st\<lparr>console := console st @ [ErrorLoadingSaved]\<rparr>
                | Some parsed \<Rightarrow>
                    st\<lparr>generatedRoutine := Val parsed,
                       editableRoutine := Some (pretty 0 parsed)\<rparr>))"

definition startup :: "jstr option \<Rightarrow> editor" where
  "startup slot = load_saved (initial slot)"

definition handleImageUpload :: "image_file option \<Rightarrow> editor \<Rightarrow> editor" where
  "handleImageUpload chosen st =
     (case chosen of
        None \<Rightarrow> st
      | Some f \<Rightarrow>
          if file_size f > 5 * 1024 * 1024
          then st\<lparr>toasts := toasts st @
                    [Toast (js ''File too large'')
                       (js ''Please select an image smaller than 5MB.'') True]\<rparr>
          else st\<lparr>imageFile := Some f,
                  toasts := toasts st @
                    [Toast (js ''Image uploaded'') (js ''Selected: '' @ file_name f) False]\<rparr>)"

definition generate_request :: "jstr \<Rightarrow> jstr \<Rightarrow> client_request" where
  "generate_request prompt imageBase64 =
     \<lparr> creq_url = js ''/api/generate'', creq_method = js ''POST'',
       creq_headers = [(js ''Content-Type'', js ''application/json'')],
       creq_body = JObj [(js ''prompt'', JStr prompt), (js ''image'', JStr imageBase64)] \<rparr>"

text \<open>The \<open>catch\<close> and \<open>finally\<close> blocks of \<open>generateRoutine\<close>.\<close>

definition generation_failed :: "editor \<Rightarrow> editor" where
  "generation_failed st =
     st\<lparr>console := console st @ [ErrorGenerating],
        toasts := toasts st @
          [Toast (js ''Generation failed'')
             (js ''Unable to generate routine. Please try again.'') True],
        isGenerating := False\<rparr>"

text \<open>
  \<open>generateRoutine\<close>. \<open>file_data_url\<close> is what \<open>convertImageToBase64\<close> resolves with
  (\<open>None\<close>: the reader fails and the promise rejects).
\<close>

definition generateRoutine :: "(client_request \<Rightarrow> client_fetch_result) \<Rightarrow> editor \<Rightarrow> editor" where
  "generateRoutine fetch st =
     (if trim (userInput st) = []
      then st\<lparr>toasts := toasts st @
                [Toast (js ''Input required'')
                   (js ''Please describe what kind of routine you want to create.'') True]\<rparr>
      else
        (let st1 = st\<lparr>isGenerating := True\<rparr>
         in case (case imageFile st of
                    None \<Rightarrow> Some []
                  | Some f \<Rightarrow> file_data_url f) of
              None \<Rightarrow> generation_failed st1
            | Some imageBase64 \<Rightarrow>
                (let req = generate_request (userInput st) imageBase64;
                     st2 = st1\<lparr>requests := requests st1 @ [req]\<rparr>
                 in case fetch req of
                      NeverSettles \<Rightarrow> st2
                    | NetworkError \<Rightarrow> generation_failed st2
                    | HttpResponse ok' payload \<Rightarrow>
                        if \<not> ok' then generation_failed st2
                        else (case json_parse payload of
                                None \<Rightarrow> generation_failed st2
                              | Some data \<Rightarrow>
                                  if data = JNull then generation_failed st2
                                  else
                                    (let routine = get_prop data (js ''routine'')
                                     in st2\<lparr>generatedRoutine := routine,
                                            editableRoutine := pretty_val routine,
                                            toasts := toasts st2 @
                                              [Toast (js ''Routine generated!'')
                                                 (js ''Your AI-powered routine has been created successfully.'')
                                                 False],
                                            isGenerating := False\<rparr>)))))"

text \<open>
  \<open>saveRoutine\<close>. \<open>accepts\<close> tells whether \<open>localStorage.setItem\<close> stores the text
  (it throws when the quota is exceeded).
\<close>

definition saveRoutine :: "(jstr \<Rightarrow> bool) \<Rightarrow> editor \<Rightarrow> editor" where
  "saveRoutine accepts st =
     (let save_failed =
            st\<lparr>toasts := toasts st @
                 [Toast (js ''Save failed'')
                    (js ''Invalid JSON format. Please check your edits.'') True]\<rparr>
      in case (if isEditing st
               then map_option Val (json_parse (string_of (editableRoutine st)))
               else Some (generatedRoutine st)) of
           None \<Rightarrow> save_failed
         | Some routineToSave \<Rightarrow>
             (let saved = string_of (stringify_val routineToSave)
              in if \<not> accepts saved then save_failed
                 else st\<lparr>storage := Some saved,
                         generatedRoutine := routineToSave,
                         isEditing := False,
                         toasts := toasts st @
                           [Toast (js ''Routine saved!'')
                              (js ''Your routine has been saved to local storage.'') False]\<rparr>))"

definition handleEditToggle :: "editor \<Rightarrow> editor" where
  "handleEditToggle st =
     (if isEditing st then
        (case json_parse (string_of (editableRoutine st)) of
           Some parsed \<Rightarrow> st\<lparr>generatedRoutine := Val parsed, isEditing := False\<rparr>
         | None \<Rightarrow>
             st\<lparr>toasts := toasts st @
                  [Toast (js ''Invalid format'')
                     (js ''Please check your JSON format before saving.'') True]\<rparr>)
      else st\<lparr>isEditing := True\<rparr>)"

section \<open>The data model and the examples\<close>

text \<open>
  The interface \<open>GeneratedRoutine\<close>: an object with a string \<open>title\<close>, a string
  \<open>description\<close> and an array \<open>steps\<close> of objects, each with a number \<open>step\<close>, a
  string \<open>action\<close> and, when present, strings \<open>duration\<close> and \<open>notes\<close>.
\<close>

definition has_string :: "(jstr \<times> json) list \<Rightarrow> jstr \<Rightarrow> bool" where
  "has_string kvs k = (case map_of kvs k of Some (JStr _) \<Rightarrow> True | _ \<Rightarrow> False)"

definition has_optional_string :: "(jstr \<times> json) list \<Rightarrow> jstr \<Rightarrow> bool" where
  "has_optional_string kvs k =
     (case map_of kvs k of None \<Rightarrow> True | Some (JStr _) \<Rightarrow> True | _ \<Rightarrow> False)"

definition is_step :: "json \<Rightarrow> bool" where
  "is_step v =
     (case v of
        JObj kvs \<Rightarrow>
          (case map_of kvs (js ''step'') of Some (JNum _ _) \<Rightarrow> True | _ \<Rightarrow> False) \<and>
          has_string kvs (js ''action'') \<and>
          has_optional_string kvs (js ''duration'') \<and>
          has_optional_string kvs (js ''notes'')
      | _ \<Rightarrow> False)"

definition is_routine :: "json \<Rightarrow> bool" where
  "is_routine v =
     (case v of
        JObj kvs \<Rightarrow>
          has_string kvs (js ''title'') \<and>
          has_string kvs (js ''description'') \<and>
          (case map_of kvs (js ''steps'') of Some (JArr vs) \<Rightarrow> list_all is_step vs | _ \<Rightarrow> False)
      | _ \<Rightarrow> False)"

text \<open>The content of the second message of a call to the provider.\<close>

definition sent_user_message :: "provider_call \<Rightarrow> jsval" where
  "sent_user_message c =
     (case get_prop (call_body c) (js ''messages'') of
        Val (JArr [_, m]) \<Rightarrow> get_prop m (js ''content'')
      | _ \<Rightarrow> Undefined)"

text \<open>
  Values for the examples: an environment with a key, a request with a prompt, and a
  provider that answers every call with status 200 and a completion whose content is a
  given text.
\<close>

definition example_env :: env where
  "example_env = \<lparr> gemini_api_key = Some (js ''secret'') \<rparr>"

definition example_request :: "jstr \<Rightarrow> json \<Rightarrow> request" where
  "example_request m img =
     \<lparr> req_method = m,
       req_json = Some (JObj [(js ''prompt'', JStr (js ''30-minute morning energizer'')),
                              (js ''image'', img)]) \<rparr>"

definition completion :: "json \<Rightarrow> jstr" where
  "completion content =
     stringify (JObj [(js ''choices'',
                       JArr [JObj [(js ''message'', JObj [(js ''content'', content)])]])])"

definition provider_says :: "nat \<Rightarrow> jstr \<Rightarrow> provider_call \<Rightarrow> fetch_result" where
  "provider_says code payload c =
     FetchResponse \<lparr> resp_status = code, resp_status_text = js ''status'', resp_body = payload \<rparr>"

definition fenced :: "jstr \<Rightarrow> jstr" where
  "fenced t = fence_open @ [10] @ t @ [10] @ fence_close"

definition energize :: json where
  "energize =
     JObj [(js ''title'', JStr (js ''Energize'')),
           (js ''description'', JStr (js ''Quick AM boost'')),
           (js ''steps'',
            JArr [JObj [(js ''step'', JNum 1 0), (js ''action'', JStr (js ''Stretch'')),
                        (js ''duration'', JStr (js ''5 min''))]])]"

definition energize_text :: jstr where
  \<open>energize_text =
     js ''{"title":"Energize","description":"Quick AM boost","steps":[{"step":1,"action":"Stretch","duration":"5 min"}]}''\<close>

text \<open>A reply with braces before and after a fenced block.\<close>

definition fenced_reply :: jstr where
  \<open>fenced_reply =
     js ''Here is {"draft":true} your routine:'' @ [10] @ fenced energize_text @ [10] @
     js ''Enjoy {"x":2}''\<close>

text \<open>A reply with two objects and no fence.\<close>

definition morning :: json where
  "morning =
     JObj [(js ''title'', JStr (js ''Morning'')), (js ''description'', JStr (js ''Wake up'')),
           (js ''steps'', JArr [])]"

definition morning_inner :: jstr where
  \<open>morning_inner = js ''"title":"Morning","description":"Wake up","steps":[]''\<close>

definition evening_inner :: jstr where
  \<open>evening_inner = js ''"title":"Evening","description":"Wind down","steps":[]''\<close>

definition two_objects :: jstr where
  "two_objects =
     js ''Option A: '' @ [123] @ morning_inner @ [125] @ js '' Option B: '' @
     [123] @ evening_inner @ [125] @ js '' Pick one.''"

text \<open>An editor in edit mode whose text is cut off in the middle of the object.\<close>

definition example_editor :: editor where
  \<open>example_editor =
     (initial None)\<lparr> userInput := js ''30-minute morning energizer'',
                     generatedRoutine := Val energize,
                     editableRoutine := Some (js ''{"title": "Energize",''),
                     isEditing := True \<rparr>\<close>

section \<open>Values that JSON.stringify and JSON.parse exchange\<close>

text \<open>
  The representation of a value as \<open>JSON.parse\<close> builds it: each object has each key
  once, and each number is in lowest terms (\<open>k = 0\<close> or \<open>m\<close> not divisible by ten).
\<close>

fun wf_json :: "json \<Rightarrow> bool" where
  "wf_json (JNum m k) = (k = 0 \<or> m mod 10 \<noteq> 0)"
| "wf_json (JArr vs) = list_all wf_json vs"
| "wf_json (JObj kvs) = (distinct (map fst kvs) \<and> list_all (\<lambda>(k, v). wf_json v) kvs)"
| "wf_json v = True"





text \<open>The routine an editor holds is \<open>undefined\<close> or a well-formed value.\<close>

definition editor_ok :: "editor \<Rightarrow> bool" where
  "editor_ok st = (case generatedRoutine st of Undefined \<Rightarrow> True | Val v \<Rightarrow> wf_json v)"

section \<open>Evaluation and the two ways the handler answers\<close>

text \<open>The definitions a concrete run unfolds.\<close>

lemmas eval_defs =
  serve_def obtain_content_def prepare_call_def read_content_def user_message_def to_string_val_def
  resp_ok_def json_parse_def skip_ws_def is_json_ws_def generated_content_def routineData_def
  extract_routine_def candidate_def jsonMatch_def fence_re_def brace_re_def fence_open_def
  fence_close_def bq_def is_space_def
  parse_number_def parse_int_part_def parse_fraction_def parse_exponent_def is_digit_def
  decimal_def digits_val_def Let_def simple_escape_def hex_val_def
  example_env_def example_request_def completion_def provider_says_def
  quote_def short_escape_def is_high_surrogate_def is_low_surrogate_def unicode_escape_def
  hex_digit_def show_num_def pad_digits_def show_nat.simps
  parse_value.simps parse_elements.simps parse_members.simps
  preflight_response_def routine_response_def error_response_def
  fenced_def energize_def energize_text_def fenced_reply_def morning_def
  morning_inner_def evening_inner_def two_objects_def

lemma serve_ok:
  assumes "req_method req \<noteq> js ''OPTIONS''" and "obtain_content e fetch req = (Inr c, cs, ls)"
  shows "response (serve e fetch req) = routine_response (routineData c)"
    and "calls (serve e fetch req) = cs"
  using assms by (simp_all add: serve_def)

lemma serve_not_prepared:
  assumes "req_method req \<noteq> js ''OPTIONS''" and "prepare_call e req = Inl f"
  shows "response (serve e fetch req) = error_response f"
    and "calls (serve e fetch req) = []"
  using assms by (simp_all add: serve_def obtain_content_def)

lemma serve_not_read:
  assumes "req_method req \<noteq> js ''OPTIONS''" and "prepare_call e req = Inr call"
    and "read_content (fetch call) = (Inl f, ls)"
  shows "response (serve e fetch req) = error_response f"
    and "calls (serve e fetch req) = [call]"
  using assms by (simp_all add: serve_def obtain_content_def)

lemma serve_read:
  assumes "req_method req \<noteq> js ''OPTIONS''" and "prepare_call e req = Inr call"
    and "read_content (fetch call) = (Inr c, ls)"
  shows "response (serve e fetch req) = routine_response (routineData c)"
    and "calls (serve e fetch req) = [call]"
  using assms by (simp_all add: serve_def obtain_content_def)

lemma candidate_no_match:
  "rsearch fence_re content = None \<Longrightarrow> rsearch brace_re content = None \<Longrightarrow>
   candidate content = content"
  by (simp add: candidate_def jsonMatch_def)

section \<open>What the two expressions match\<close>

text \<open>Literal nodes.\<close>

lemma rmatch_lit:
  "rmatch (map Chr lit @ r) (lit @ s) = map_option (\<lambda>(w, g). (lit @ w, g)) (rmatch r s)"
proof (induction lit)
  case Nil
  show ?case by (simp add: option.map_ident case_prod_unfold)
next
  case (Cons c lit)
  then show ?case
    by (cases "rmatch r s") (auto simp: option.map_comp)
qed

lemma rmatch_lit_only: "rmatch (map Chr lit) (lit @ s) = Some (lit, [])"
  using rmatch_lit [of lit "[]" s] by simp

lemma rmatch_lit_prefix:
  "rmatch (map Chr lit @ r) s = Some res \<Longrightarrow> prefix lit s"
proof (induction lit arbitrary: s res)
  case Nil
  show ?case by simp
next
  case (Cons c lit)
  then show ?case
    by (cases s) (auto split: if_splits)
qed

text \<open>Every match is a prefix of the string.\<close>

lemma rmatch_prefix: "rmatch re s = Some (w, g) \<Longrightarrow> prefix w s"
proof (induction re s arbitrary: w g rule: rmatch.induct)
  case (1 s)
  then show ?case by simp
next
  case (2 c r)
  then show ?case by simp
next
  case (3 c r x xs)
  then show ?case by (auto split: if_splits)
next
  case (4 cl cap r)
  then show ?case by auto
next
  case (5 cl cap r x xs)
  then show ?case by (auto split: if_splits option.splits)
next
  case (6 cl cap r)
  then show ?case by auto
next
  case (7 cl cap r x xs)
  then show ?case by (auto split: if_splits option.splits)
qed

lemma rsearch_found:
  "rsearch re s = Some (w, g) \<Longrightarrow> \<exists>a b. s = a @ b \<and> rmatch re b = Some (w, g)"
proof (induction s)
  case Nil
  then show ?case by simp
next
  case (Cons x xs)
  show ?case
  proof (cases "rmatch re (x # xs)")
    case None
    with Cons obtain a b where "xs = a @ b" "rmatch re b = Some (w, g)"
      by auto
    then have "x # xs = (x # a) @ b \<and> rmatch re b = Some (w, g)"
      by simp
    then show ?thesis by blast
  next
    case (Some res)
    with Cons.prems have "x # xs = [] @ (x # xs) \<and> rmatch re (x # xs) = Some (w, g)"
      by simp
    then show ?thesis by blast
  qed
qed

lemma rsearch_skip:
  assumes "\<And>a b. pre = a @ b \<Longrightarrow> b \<noteq> [] \<Longrightarrow> rmatch re (b @ s) = None"
  shows "rsearch re (pre @ s) = rsearch re s"
  using assms
proof (induction pre)
  case Nil
  show ?case by simp
next
  case (Cons x pre)
  have "rmatch re ((x # pre) @ s) = None"
    using Cons.prems [of "[]" "x # pre"] by simp
  moreover have "rsearch re (pre @ s) = rsearch re s"
  proof (rule Cons.IH)
    fix a b
    assume "pre = a @ b" "b \<noteq> []"
    then show "rmatch re (b @ s) = None"
      using Cons.prems [of "x # a" b] by simp
  qed
  ultimately show ?case by simp
qed

lemma rsearch_here: "rmatch re s = Some res \<Longrightarrow> rsearch re s = Some res"
  by (cases s) simp_all

text \<open>Repetitions.\<close>

lemma rmatch_greedy_space:
  assumes "\<forall>c \<in> set ws. is_space c" and "t = [] \<or> \<not> is_space (hd t)"
    and "rmatch r t = Some (w, g)"
  shows "rmatch (Rep Greedy Space False # r) (ws @ t) = Some (ws @ w, g)"
  using assms(1)
proof (induction ws)
  case Nil
  show ?case
    using assms(2,3) by (cases t) auto
next
  case (Cons x ws)
  then show ?case by simp
qed

lemma rmatch_lazy_any:
  assumes "\<And>a b. block = a @ b \<Longrightarrow> b \<noteq> [] \<Longrightarrow> rmatch r (b @ t) = None"
    and "rmatch r t = Some (w, g)"
  shows "rmatch (Rep Lazy AnyChar True # r) (block @ t) = Some (block @ w, block # g)"
  using assms(1)
proof (induction block)
  case Nil
  show ?case
    using assms(2) by (cases t) auto
next
  case (Cons x block)
  have "rmatch r ((x # block) @ t) = None"
    using Cons.prems [of "[]" "x # block"] by simp
  moreover have "rmatch (Rep Lazy AnyChar True # r) (block @ t) = Some (block @ w, block # g)"
  proof (rule Cons.IH)
    fix a b
    assume "block = a @ b" "b \<noteq> []"
    then show "rmatch r (b @ t) = None"
      using Cons.prems [of "x # a" b] by simp
  qed
  ultimately show ?case by simp
qed

lemma rmatch_space_then_lit:
  assumes "lit \<noteq> []" and "\<not> is_space (hd lit)"
  shows "rmatch (Rep Greedy Space False # map Chr lit) s =
           (if prefix lit (dropWhile is_space s)
            then Some (takeWhile is_space s @ lit, []) else None)"
proof (induction s)
  case Nil
  show ?case
    using assms by (cases lit) auto
next
  case (Cons x xs)
  obtain c cs where l: "lit = c # cs"
    using assms(1) by (cases lit) auto
  show ?case
  proof (cases "is_space x")
    case True
    then have "x \<noteq> c"
      using assms(2) l by auto
    with True Cons l show ?thesis by auto
  next
    case False
    then have u: "rmatch (Rep Greedy Space False # map Chr lit) (x # xs) =
        map_option (opened False) (rmatch (map Chr lit) (x # xs))"
      by simp
    from False have d: "dropWhile is_space (x # xs) = x # xs" "takeWhile is_space (x # xs) = []"
      by simp_all
    show ?thesis
    proof (cases "prefix lit (x # xs)")
      case True
      then obtain rest where "x # xs = lit @ rest"
        by (auto simp: prefix_def)
      then have "rmatch (map Chr lit) (x # xs) = Some (lit, [])"
        using rmatch_lit_only [of lit rest] by simp
      with True show ?thesis
        unfolding u d by simp
    next
      case np: False
      have "rmatch (map Chr lit) (x # xs) = None"
      proof (cases "rmatch (map Chr lit) (x # xs)")
        case (Some res)
        then have "prefix lit (x # xs)"
          using rmatch_lit_prefix [of lit "[]" "x # xs" res] by simp
        with np show ?thesis by simp
      qed simp
      with np show ?thesis
        unfolding u d by simp
    qed
  qed
qed


text \<open>The fence expression on a fenced block.\<close>

lemma prefix_short:
  assumes "prefix xs (ys @ zs)" and "length xs \<le> length ys"
  shows "prefix xs ys"
proof -
  from assms(1) obtain us where "ys @ zs = xs @ us"
    by (auto simp: prefix_def)
  then have "take (length xs) (ys @ zs) = xs"
    by simp
  with assms(2) have "take (length xs) ys = xs"
    by simp
  then show ?thesis
    by (metis take_is_prefix)
qed

lemma not_space_bq: "\<not> is_space bq"
  by (simp add: is_space_def bq_def)

lemma closing_fence_after_space:
  assumes "\<forall>c \<in> set ws. is_space c"
  shows "rmatch (Rep Greedy Space False # map Chr fence_close) (ws @ fence_close @ post) =
           Some (ws @ fence_close, [])"
proof -
  have "dropWhile is_space (ws @ fence_close @ post) = fence_close @ post"
    using assms not_space_bq by (simp add: dropWhile_append2 fence_close_def)
  moreover have "takeWhile is_space (ws @ fence_close @ post) = ws"
    using assms not_space_bq by (simp add: takeWhile_append2 fence_close_def)
  ultimately show ?thesis
    using rmatch_space_then_lit [of fence_close "ws @ fence_close @ post"] not_space_bq
    by (simp add: fence_close_def)
qed

lemma no_closing_fence_inside:
  assumes "b \<noteq> []" and "\<not> is_space (last b)"
    and "\<not> sublist fence_close (a @ b @ ws @ [bq, bq])"
  shows "rmatch (Rep Greedy Space False # map Chr fence_close) (b @ ws @ fence_close @ post) = None"
proof -
  let ?d = "dropWhile is_space b"
  have in_b: "last b \<in> set b"
    using assms(1) by simp
  have d: "dropWhile is_space (b @ ws @ fence_close @ post) = ?d @ ws @ fence_close @ post"
    using in_b assms(2) by (simp add: dropWhile_append1)
  have ne: "?d \<noteq> []"
    using in_b assms(2) by (auto simp: dropWhile_eq_Nil_conv)
  have "\<not> prefix fence_close (?d @ ws @ fence_close @ post)"
  proof
    assume "prefix fence_close (?d @ ws @ fence_close @ post)"
    then have "prefix fence_close ((?d @ ws @ [bq, bq]) @ ([bq] @ post))"
      by (simp add: fence_close_def)
    moreover have "length fence_close \<le> length (?d @ ws @ [bq, bq])"
      using ne by (cases ?d) (simp_all add: fence_close_def)
    ultimately have "prefix fence_close (?d @ ws @ [bq, bq])"
      by (rule prefix_short)
    then obtain ss where "?d @ ws @ [bq, bq] = fence_close @ ss"
      by (auto simp: prefix_def)
    moreover have "b = takeWhile is_space b @ ?d"
      by simp
    ultimately have "a @ b @ ws @ [bq, bq] = (a @ takeWhile is_space b) @ fence_close @ ss"
      by (metis append.assoc)
    then have "sublist fence_close (a @ b @ ws @ [bq, bq])"
      unfolding sublist_def by blast
    with assms(3) show False by simp
  qed
  then show ?thesis
    using rmatch_space_then_lit [of fence_close "b @ ws @ fence_close @ post"] not_space_bq d
    by (simp add: fence_close_def)
qed

lemma fence_match:
  assumes "\<forall>c \<in> set (ws1 @ ws2). is_space c"
    and "block \<noteq> [] \<longrightarrow> \<not> is_space (hd block) \<and> \<not> is_space (last block)"
    and "block = [] \<longrightarrow> ws2 = []"
    and "\<not> sublist fence_close (block @ ws2 @ [bq, bq])"
  shows "rmatch fence_re (fence_open @ ws1 @ block @ ws2 @ fence_close @ post) =
           Some (fence_open @ ws1 @ block @ ws2 @ fence_close, [block])"
proof -
  let ?r2 = "Rep Greedy Space False # map Chr fence_close"
  let ?r1 = "Rep Lazy AnyChar True # ?r2"
  let ?t2 = "ws2 @ fence_close @ post"
  have c: "rmatch ?r2 ?t2 = Some (ws2 @ fence_close, [])"
    using assms(1) closing_fence_after_space by simp
  have l: "rmatch ?r1 (block @ ?t2) = Some (block @ ws2 @ fence_close, [block])"
  proof (rule rmatch_lazy_any [OF _ c])
    fix a b
    assume ab: "block = a @ b" "b \<noteq> []"
    then have "\<not> is_space (last b)"
      using assms(2) by simp
    moreover have "\<not> sublist fence_close (a @ b @ ws2 @ [bq, bq])"
      using assms(4) ab by simp
    ultimately show "rmatch ?r2 (b @ ?t2) = None"
      using ab(2) no_closing_fence_inside by blast
  qed
  have h: "block @ ?t2 = [] \<or> \<not> is_space (hd (block @ ?t2))"
    using assms(2,3) not_space_bq by (cases block) (simp_all add: fence_close_def)
  have g: "rmatch (Rep Greedy Space False # ?r1) (ws1 @ block @ ?t2) =
      Some (ws1 @ block @ ws2 @ fence_close, [block])"
    using rmatch_greedy_space [OF _ h l, of ws1] assms(1) by simp
  have "fence_re = map Chr fence_open @ (Rep Greedy Space False # ?r1)"
    by (simp add: fence_re_def)
  then show ?thesis
    using rmatch_lit [of fence_open "Rep Greedy Space False # ?r1" "ws1 @ block @ ?t2"] g
    by simp
qed

lemma fence_not_before:
  assumes "\<not> sublist fence_open (a @ b @ butlast fence_open)" and "b \<noteq> []"
  shows "rmatch fence_re (b @ fence_open @ rest) = None"
proof (cases "rmatch fence_re (b @ fence_open @ rest)")
  case None
  then show ?thesis .
next
  case (Some res)
  then have "prefix fence_open (b @ fence_open @ rest)"
    using rmatch_lit_prefix [of fence_open _ _ res] by (simp add: fence_re_def)
  then have "prefix fence_open ((b @ butlast fence_open) @ (last fence_open # rest))"
    by (simp add: fence_open_def)
  moreover have "length fence_open \<le> length (b @ butlast fence_open)"
    using assms(2) by (cases b) (simp_all add: fence_open_def)
  ultimately have "prefix fence_open (b @ butlast fence_open)"
    by (rule prefix_short)
  then obtain ss where "b @ butlast fence_open = fence_open @ ss"
    by (auto simp: prefix_def)
  then have "a @ b @ butlast fence_open = a @ fence_open @ ss"
    by simp
  then have "sublist fence_open (a @ b @ butlast fence_open)"
    unfolding sublist_def by blast
  with assms(1) show ?thesis by simp
qed

lemma fence_search:
  assumes "\<not> sublist fence_open (pre @ butlast fence_open)"
    and "\<forall>c \<in> set (ws1 @ ws2). is_space c"
    and "block \<noteq> [] \<longrightarrow> \<not> is_space (hd block) \<and> \<not> is_space (last block)"
    and "block = [] \<longrightarrow> ws2 = []"
    and "\<not> sublist fence_close (block @ ws2 @ [bq, bq])"
  shows "rsearch fence_re (pre @ fence_open @ ws1 @ block @ ws2 @ fence_close @ post) =
           Some (fence_open @ ws1 @ block @ ws2 @ fence_close, [block])"
proof -
  let ?rest = "ws1 @ block @ ws2 @ fence_close @ post"
  have "rsearch fence_re (pre @ fence_open @ ?rest) = rsearch fence_re (fence_open @ ?rest)"
  proof (rule rsearch_skip)
    fix a b
    assume "pre = a @ b" "b \<noteq> []"
    then show "rmatch fence_re (b @ fence_open @ ?rest) = None"
      using assms(1) fence_not_before [of a b] by simp
  qed
  then show ?thesis
    using rsearch_here [OF fence_match [OF assms(2-5), of post]] by simp
qed


text \<open>The brace expression.\<close>

lemma greedy_any_none:
  "c \<notin> set v \<Longrightarrow> rmatch [Rep Greedy AnyChar False, Chr c] v = None"
  by (induction v) auto

lemma greedy_any_last:
  "c \<notin> set v \<Longrightarrow> rmatch [Rep Greedy AnyChar False, Chr c] (u @ c # v) = Some (u @ [c], [])"
  by (induction u) (auto simp: greedy_any_none)

lemma brace_search:
  assumes "123 \<notin> set pre" and "125 \<notin> set post"
  shows "rsearch brace_re (pre @ 123 # mid @ 125 # post) = Some (123 # mid @ [125], [])"
proof -
  let ?rest = "123 # mid @ 125 # post"
  have "rsearch brace_re (pre @ ?rest) = rsearch brace_re ?rest"
  proof (rule rsearch_skip)
    fix a b
    assume "pre = a @ b" "b \<noteq> []"
    with assms(1) show "rmatch brace_re (b @ ?rest) = None"
      by (cases b) (auto simp: brace_re_def)
  qed
  moreover have "rmatch brace_re ?rest = Some (123 # mid @ [125], [])"
    using greedy_any_last [OF assms(2), of mid] by (simp add: brace_re_def)
  ultimately show ?thesis
    using rsearch_here by simp
qed

text \<open>What a match of the fence expression looks like.\<close>

lemma rmatch_lit_split:
  "rmatch (map Chr lit @ r) s = Some (w, g) \<Longrightarrow>
   \<exists>w'. w = lit @ w' \<and> rmatch r (drop (length lit) s) = Some (w', g)"
proof (induction lit arbitrary: s w)
  case Nil
  then show ?case by simp
next
  case (Cons c lit)
  then show ?case
    by (cases s) (auto split: if_splits)
qed

lemma rmatch_rep_split:
  "rmatch (Rep m cl cap # r) s = Some (w, g) \<Longrightarrow>
   \<exists>p w' g'. w = p @ w' \<and> rmatch r (drop (length p) s) = Some (w', g')"
proof (induction s arbitrary: w g)
  case Nil
  then have "\<exists>g'. w = [] @ w \<and> rmatch r (drop (length ([]::jstr)) []) = Some (w, g')"
    by (cases m) auto
  then show ?case by blast
next
  case (Cons x xs)
  have stop: "\<exists>p w' g'. w = p @ w' \<and> rmatch r (drop (length p) (x # xs)) = Some (w', g')"
    if "map_option (opened cap) (rmatch r (x # xs)) = Some (w, g)"
  proof -
    from that obtain g' where "rmatch r (x # xs) = Some (w, g')"
      by auto
    then have "w = [] @ w \<and> rmatch r (drop (length ([]::jstr)) (x # xs)) = Some (w, g')"
      by simp
    then show ?thesis by blast
  qed
  have more: "\<exists>p w' g'. w = p @ w' \<and> rmatch r (drop (length p) (x # xs)) = Some (w', g')"
    if "rmatch (Rep m cl cap # r) xs = Some res" "grow cap x res = (w, g)" for res
  proof -
    obtain w0 g0 where res: "res = (w0, g0)"
      by (cases res)
    with that(1) Cons.IH obtain p w' g' where "w0 = p @ w'" "rmatch r (drop (length p) xs) = Some (w', g')"
      by blast
    moreover from that(2) res have "w = x # w0"
      by simp
    ultimately have "w = (x # p) @ w' \<and> rmatch r (drop (length (x # p)) (x # xs)) = Some (w', g')"
      by simp
    then show ?thesis by blast
  qed
  show ?case
  proof (cases m)
    case Greedy
    with Cons.prems stop more show ?thesis
      by (auto split: if_splits option.splits)
  next
    case Lazy
    with Cons.prems stop more show ?thesis
      by (auto split: if_splits option.splits)
  qed
qed

lemma fence_match_shape:
  assumes "rmatch fence_re s = Some (w, g)"
  shows "\<exists>b. w = fence_open @ b @ fence_close"
proof -
  let ?r3 = "map Chr fence_close"
  let ?r2 = "Rep Greedy Space False # ?r3"
  let ?r1 = "Rep Lazy AnyChar True # ?r2"
  have "fence_re = map Chr fence_open @ (Rep Greedy Space False # ?r1)"
    by (simp add: fence_re_def)
  with assms rmatch_lit_split obtain w1 s1 where 1: "w = fence_open @ w1"
    and "rmatch (Rep Greedy Space False # ?r1) s1 = Some (w1, g)"
    by metis
  then obtain p1 w2 g2 s2 where 2: "w1 = p1 @ w2" and "rmatch ?r1 s2 = Some (w2, g2)"
    using rmatch_rep_split by metis
  then obtain p2 w3 g3 s3 where 3: "w2 = p2 @ w3" and "rmatch ?r2 s3 = Some (w3, g3)"
    using rmatch_rep_split by metis
  then obtain p3 w4 g4 s4 where 4: "w3 = p3 @ w4" and "rmatch (?r3 @ []) s4 = Some (w4, g4)"
    using rmatch_rep_split [of Greedy Space False ?r3] by (metis append_Nil2)
  then obtain w5 where "w4 = fence_close @ w5" and "rmatch [] (drop (length fence_close) s4) = Some (w5, g4)"
    using rmatch_lit_split by blast
  then have "w4 = fence_close"
    by simp
  with 1 2 3 4 have "w = fence_open @ (p1 @ p2 @ p3) @ fence_close"
    by simp
  then show ?thesis by blast
qed

lemma no_fence_no_match:
  assumes "\<not> (\<exists>a b c. content = a @ fence_open @ b @ fence_close @ c)"
  shows "rsearch fence_re content = None"
proof (cases "rsearch fence_re content")
  case None
  then show ?thesis .
next
  case (Some res)
  obtain w g where "res = (w, g)"
    by (cases res)
  with Some rsearch_found obtain a s where "content = a @ s" and m: "rmatch fence_re s = Some (w, g)"
    by blast
  moreover from rmatch_prefix [OF m] obtain c where "s = w @ c"
    by (auto simp: prefix_def)
  moreover from m obtain b where "w = fence_open @ b @ fence_close"
    using fence_match_shape by blast
  ultimately have "content = a @ fence_open @ b @ fence_close @ c"
    by simp
  with assms show ?thesis by blast
qed

lemma brace_match_shape:
  assumes "rmatch brace_re s = Some (w, g)"
  shows "\<exists>b. w = 123 # b @ [125]"
proof -
  have "brace_re = map Chr [123] @ [Rep Greedy AnyChar False, Chr 125]"
    by (simp add: brace_re_def)
  with assms rmatch_lit_split obtain w1 s1 where 1: "w = [123] @ w1"
    and r: "rmatch [Rep Greedy AnyChar False, Chr 125] s1 = Some (w1, g)"
    by metis
  from rmatch_rep_split [OF r] obtain p w2 g2
    where 2: "w1 = p @ w2" and "rmatch [Chr 125] (drop (length p) s1) = Some (w2, g2)"
    by blast
  then have "rmatch (map Chr [125] @ []) (drop (length p) s1) = Some (w2, g2)"
    by simp
  then obtain w3 where "w2 = [125] @ w3"
    and "rmatch [] (drop (length [125::nat]) (drop (length p) s1)) = Some (w3, g2)"
    using rmatch_lit_split by blast
  then have "w2 = [125]"
    by simp
  with 1 2 show ?thesis by simp
qed

lemma no_brace_no_match:
  assumes "\<not> (\<exists>a b c. content = a @ [123] @ b @ [125] @ c)"
  shows "rsearch brace_re content = None"
proof (cases "rsearch brace_re content")
  case None
  then show ?thesis .
next
  case (Some res)
  obtain w g where "res = (w, g)"
    by (cases res)
  with Some rsearch_found obtain a s where "content = a @ s" and m: "rmatch brace_re s = Some (w, g)"
    by blast
  moreover from rmatch_prefix [OF m] obtain c where "s = w @ c"
    by (auto simp: prefix_def)
  moreover from m obtain b where "w = 123 # b @ [125]"
    using brace_match_shape by blast
  ultimately have "content = a @ [123] @ b @ [125] @ c"
    by simp
  with assms show ?thesis by blast
qed

section \<open>Where the first fenced block of a text is\<close>

text \<open>
  A text that holds an opening fence and, after it, a closing fence splits at the first
  opening fence and at the first closing fence after it, and what stands between them
  splits into white space, a block without white space at its ends, and white space.
\<close>

lemma first_occurrence:
  assumes "sublist xs ys" and "xs \<noteq> []"
  shows "\<exists>ps ss. ys = ps @ xs @ ss \<and> \<not> sublist xs (ps @ butlast xs)"
  using assms(1)
proof (induction ys)
  case Nil
  with assms(2) show ?case by simp
next
  case (Cons y ys)
  have short: "\<not> sublist xs (butlast xs)"
  proof
    assume "sublist xs (butlast xs)"
    then obtain ps ss where "butlast xs = ps @ xs @ ss"
      by (auto simp: sublist_def)
    then have "length (butlast xs) = length (ps @ xs @ ss)"
      by simp
    then have "length xs \<le> length (butlast xs)"
      by simp
    moreover have "length (butlast xs) = length xs - 1"
      by (rule length_butlast)
    moreover have "0 < length xs"
      using assms(2) by simp
    ultimately show False
      by linarith
  qed
  show ?case
  proof (cases "prefix xs (y # ys)")
    case True
    then obtain ss where "y # ys = [] @ xs @ ss"
      by (auto simp: prefix_def)
    with short show ?thesis
      by (metis append_Nil)
  next
    case False
    with Cons.prems have "sublist xs ys"
      by (simp add: sublist_Cons_right)
    with Cons.IH obtain ps ss where ys: "ys = ps @ xs @ ss"
      and first: "\<not> sublist xs (ps @ butlast xs)"
      by blast
    have "\<not> prefix xs (y # ps @ butlast xs)"
    proof
      assume "prefix xs (y # ps @ butlast xs)"
      then have "prefix xs ((y # ps @ butlast xs) @ (last xs # ss))"
        by (rule prefix_prefix)
      moreover have "(y # ps @ butlast xs) @ (last xs # ss) = y # ys"
        using ys assms(2) by simp
      ultimately show False
        using False by simp
    qed
    with first have "\<not> sublist xs ((y # ps) @ butlast xs)"
      by (simp add: sublist_Cons_right)
    moreover have "y # ys = (y # ps) @ xs @ ss"
      using ys by simp
    ultimately show ?thesis by blast
  qed
qed

lemma trim_split:
  "\<exists>ws1 block ws2. raw = ws1 @ block @ ws2 \<and> (\<forall>c \<in> set (ws1 @ ws2). is_space c) \<and>
     (block \<noteq> [] \<longrightarrow> \<not> is_space (hd block) \<and> \<not> is_space (last block))"
proof -
  let ?ws1 = "takeWhile is_space raw"
  let ?r = "dropWhile is_space raw"
  let ?ws2 = "rev (takeWhile is_space (rev ?r))"
  let ?block = "rev (dropWhile is_space (rev ?r))"
  have "?block @ ?ws2 = ?r"
    by (metis rev_append rev_rev_ident takeWhile_dropWhile_id)
  then have 1: "raw = ?ws1 @ ?block @ ?ws2"
    by simp
  have 2: "\<forall>c \<in> set (?ws1 @ ?ws2). is_space c"
    by (auto dest: set_takeWhileD)
  have 3: "?block \<noteq> [] \<longrightarrow> \<not> is_space (hd ?block) \<and> \<not> is_space (last ?block)"
  proof
    assume ne: "?block \<noteq> []"
    then have d: "dropWhile is_space (rev ?r) \<noteq> []"
      by simp
    then have l: "\<not> is_space (last ?block)"
      using hd_dropWhile [OF d] by (simp add: last_rev)
    have "?r \<noteq> []"
    proof
      assume "?r = []"
      then have "?block = []"
        by (simp only: rev.simps dropWhile.simps)
      with ne show False by simp
    qed
    then have h: "\<not> is_space (hd ?r)"
      by (rule hd_dropWhile)
    have "hd ?block = hd ?r"
      using \<open>?block @ ?ws2 = ?r\<close> ne by (metis hd_append2)
    with h l show "\<not> is_space (hd ?block) \<and> \<not> is_space (last ?block)"
      by simp
  qed
  from 1 2 3 show ?thesis by blast
qed

lemma sublist_suffix_part:
  "sublist xs (ys @ zs) \<Longrightarrow> sublist xs (ws @ ys @ zs)"
  by (metis sublist_append_leftI sublist_order.order_trans)

lemma fenced_block_decomposition:
  assumes "content = a @ fence_open @ b @ fence_close @ c"
  shows "\<exists>pre ws1 block ws2 post.
           content = pre @ fence_open @ ws1 @ block @ ws2 @ fence_close @ post \<and>
           \<not> sublist fence_open (pre @ butlast fence_open) \<and>
           (\<forall>c \<in> set (ws1 @ ws2). is_space c) \<and>
           (block \<noteq> [] \<longrightarrow> \<not> is_space (hd block) \<and> \<not> is_space (last block)) \<and>
           \<not> sublist fence_close (block @ ws2 @ [bq, bq])"
proof -
  have fo: "fence_open \<noteq> []" and fc: "fence_close \<noteq> []"
    by (simp_all add: fence_open_def fence_close_def)
  have "sublist fence_open content"
    unfolding assms by simp
  from first_occurrence [OF this fo] obtain pre rest
    where c: "content = pre @ fence_open @ rest"
      and first: "\<not> sublist fence_open (pre @ butlast fence_open)"
    by blast
  have le: "length pre \<le> length a"
  proof (rule ccontr)
    assume "\<not> length pre \<le> length a"
    then have n: "length (a @ fence_open) \<le> length (pre @ butlast fence_open)"
      by (simp add: fence_open_def)
    have "butlast fence_open @ [last fence_open] = fence_open"
      using fo by simp
    then have "(pre @ butlast fence_open) @ (last fence_open # rest) = pre @ fence_open @ rest"
      by (metis append.assoc append_Cons append_Nil)
    also have "\<dots> = (a @ fence_open) @ (b @ fence_close @ c)"
      using c assms by simp
    finally have "prefix (a @ fence_open) ((pre @ butlast fence_open) @ (last fence_open # rest))"
      by (simp add: prefix_def)
    then have "prefix (a @ fence_open) (pre @ butlast fence_open)"
      using n by (rule prefix_short)
    then have "sublist fence_open (pre @ butlast fence_open)"
      by (auto simp: prefix_def sublist_def)
    with first show False by simp
  qed
  define n where "n = length (pre @ fence_open)"
  define ab where "ab = a @ fence_open @ b"
  have "n \<le> length ab"
    using le by (simp add: n_def ab_def)
  then have "drop n (ab @ fence_close @ c) = drop n ab @ fence_close @ c"
    by simp
  moreover have "rest = drop n content"
    using c by (simp add: n_def)
  moreover have "content = ab @ fence_close @ c"
    using assms by (simp add: ab_def)
  ultimately have "rest = drop n ab @ fence_close @ c"
    by simp
  then have "sublist fence_close rest"
    by simp
  from first_occurrence [OF this fc] obtain raw post
    where r: "rest = raw @ fence_close @ post"
      and close: "\<not> sublist fence_close (raw @ butlast fence_close)"
    by blast
  from trim_split [of raw] obtain ws1 block ws2
    where t: "raw = ws1 @ block @ ws2" and w: "\<forall>c \<in> set (ws1 @ ws2). is_space c"
      and h: "block \<noteq> [] \<longrightarrow> \<not> is_space (hd block) \<and> \<not> is_space (last block)"
    by blast
  have "\<not> sublist fence_close (block @ ws2 @ [bq, bq])"
  proof
    assume "sublist fence_close (block @ ws2 @ [bq, bq])"
    then have "sublist fence_close (ws1 @ block @ ws2 @ [bq, bq])"
      using sublist_suffix_part [of fence_close block "ws2 @ [bq, bq]" ws1] by simp
    with close t show False
      by (simp add: fence_close_def)
  qed
  with c r t w h first
  have "content = pre @ fence_open @ ws1 @ block @ ws2 @ fence_close @ post \<and>
           \<not> sublist fence_open (pre @ butlast fence_open) \<and>
           (\<forall>c \<in> set (ws1 @ ws2). is_space c) \<and>
           (block \<noteq> [] \<longrightarrow> \<not> is_space (hd block) \<and> \<not> is_space (last block)) \<and>
           \<not> sublist fence_close (block @ ws2 @ [bq, bq])"
    by simp
  then show ?thesis by blast
qed

section \<open>JSON.parse inverts JSON.stringify\<close>

























text \<open>Strings.\<close>

lemma hex_val_digit: "d < 16 \<Longrightarrow> hex_val (hex_digit d) = Some d"
  by (auto simp: hex_val_def hex_digit_def)

lemma parse_chars_unicode:
  assumes "c < 65536"
  shows "parse_chars (unicode_escape c @ t) = map_option (\<lambda>(s, t). (c # s, t)) (parse_chars t)"
proof -
  have "c mod (16 * 16) = 16 * (c div 16 mod 16) + c mod 16"
    by (rule mod_mult2_eq)
  moreover have "c mod (256 * 16) = 256 * (c div 256 mod 16) + c mod 256"
    by (rule mod_mult2_eq)
  moreover have "c mod (4096 * 16) = 4096 * (c div 4096 mod 16) + c mod 4096"
    by (rule mod_mult2_eq)
  moreover have "c mod 65536 = c"
    using assms by simp
  ultimately have
    v: "4096 * (c div 4096 mod 16) + 256 * (c div 256 mod 16) + 16 * (c div 16 mod 16) + c mod 16 = c"
    by simp
  have h: "hex_val (hex_digit (n mod 16)) = Some (n mod 16)" for n
    by (rule hex_val_digit) simp
  have "parse_hex4 (hex_digit (c div 4096 mod 16) # hex_digit (c div 256 mod 16) #
          hex_digit (c div 16 mod 16) # hex_digit (c mod 16) # t) = Some (c, t)"
    by (simp only: parse_hex4.simps h prod.case option.case v)
  then show ?thesis
    by (simp add: unicode_escape_def)
qed

lemma short_escape_inverse:
  "short_escape c = Some e \<Longrightarrow> e \<noteq> 117 \<and> simple_escape e = Some c"
  by (auto simp: short_escape_def simple_escape_def split: if_splits)

lemma short_escape_none:
  "short_escape c = None \<Longrightarrow> c \<noteq> 34 \<and> c \<noteq> 92"
  by (auto simp: short_escape_def split: if_splits)

lemma parse_chars_literal:
  "c \<noteq> 34 \<Longrightarrow> c \<noteq> 92 \<Longrightarrow> \<not> c < 32 \<Longrightarrow>
   parse_chars (c # t) = map_option (\<lambda>(s, t). (c # s, t)) (parse_chars t)"
  by simp

lemma parse_chars_escape: "parse_chars (escape s @ 34 # rest) = Some (s, rest)"
proof (induction s rule: escape.induct)
  case 1
  show ?case by simp
next
  case (2 c cs)
  show ?case
  proof (cases "short_escape c")
    case (Some e)
    with 2 have "parse_chars (escape cs @ 34 # rest) = Some (cs, rest)"
      by simp
    then show ?thesis
      using Some short_escape_inverse [OF Some] by simp
  next
    case None
    note lit = short_escape_none [OF None]
    show ?thesis
    proof (cases "c < 32")
      case True
      with 2 None have "parse_chars (escape cs @ 34 # rest) = Some (cs, rest)"
        by simp
      then show ?thesis
        using None True parse_chars_unicode [of c] by simp
    next
      case False
      show ?thesis
      proof (cases "is_high_surrogate c")
        case high: True
        then have c: "c < 65536"
          by (simp add: is_high_surrogate_def)
        show ?thesis
        proof (cases cs)
          case Nil
          then show ?thesis
            using None False high parse_chars_unicode [OF c] by simp
        next
          case (Cons d ds)
          show ?thesis
          proof (cases "is_low_surrogate d")
            case True
            with 2 None False high Cons
            have "parse_chars (escape ds @ 34 # rest) = Some (ds, rest)"
              by simp
            moreover from True have "d \<noteq> 34" "d \<noteq> 92" "\<not> d < 32"
              by (simp_all add: is_low_surrogate_def)
            ultimately show ?thesis
              using None False high Cons True lit by simp
          next
            case nl: False
            with 2 None False high Cons
            have "parse_chars (escape cs @ 34 # rest) = Some (cs, rest)"
              by simp
            then show ?thesis
              using None False high Cons nl parse_chars_unicode [OF c] by simp
          qed
        qed
      next
        case nh: False
        with 2 None False have ih: "parse_chars (escape cs @ 34 # rest) = Some (cs, rest)"
          by (cases "is_low_surrogate c") simp_all
        show ?thesis
        proof (cases "is_low_surrogate c")
          case True
          then have "c < 65536"
            by (simp add: is_low_surrogate_def)
          then show ?thesis
            using None False nh True ih parse_chars_unicode [of c] by simp
        next
          case nlow: False
          then show ?thesis
            using None False nh ih lit by simp
        qed
      qed
    qed
  qed
qed

lemma parse_chars_quote: "parse_chars (tl (quote s) @ rest) = Some (s, rest)"
  using parse_chars_escape [of s rest] by (simp add: quote_def)















section \<open>JSON.parse builds well-formed values\<close>

lemma normalize_wf: "wf_json (normalize m k)"
  by (induction m k rule: normalize.induct) auto

lemma decimal_wf: "wf_json (decimal neg m e)"
  by (simp add: decimal_def Let_def normalize_wf)

lemma parse_number_wf: "parse_number s = Some (v, r) \<Longrightarrow> wf_json v"
  by (auto simp: parse_number_def Let_def decimal_wf split: option.splits prod.splits)

lemma update_values:
  "list_all (\<lambda>(k, v). wf_json v) al \<Longrightarrow> wf_json v \<Longrightarrow>
   list_all (\<lambda>(k, v). wf_json v) (AList.update k v al)"
  by (induction al) auto

lemma foldl_update_wf:
  "distinct (map fst al) \<Longrightarrow> list_all (\<lambda>(k, v). wf_json v) al \<Longrightarrow>
   list_all (\<lambda>(k, v). wf_json v) kvs \<Longrightarrow>
   wf_json (JObj (foldl (\<lambda>al (k, v). AList.update k v al) al kvs))"
proof (induction kvs arbitrary: al)
  case Nil
  then show ?case by simp
next
  case (Cons kv kvs)
  obtain k v where kv: "kv = (k, v)"
    by (cases kv)
  have "distinct (map fst (AList.update k v al))"
    using Cons.prems(1) by (rule distinct_update)
  moreover have "list_all (\<lambda>(k, v). wf_json v) (AList.update k v al)"
    using Cons.prems(2,3) kv by (intro update_values) simp_all
  ultimately show ?case
    using Cons.IH [of "AList.update k v al"] Cons.prems(3) kv by simp
qed

lemma parse_wf:
  "\<forall>v r. parse_value s = Some (v, r) \<longrightarrow> wf_json v"
  "\<forall>vs r. parse_elements s1 = Some (vs, r) \<longrightarrow> list_all wf_json vs"
  "\<forall>kvs r. parse_members s2 = Some (kvs, r) \<longrightarrow> list_all (\<lambda>(k, v). wf_json v) kvs"
proof (induction s and s1 and s2 rule: parse_value_parse_elements_parse_members.induct)
  case (1 s)
  show ?case
  proof (intro allI impI)
    fix v r
    assume p: "parse_value s = Some (v, r)"
    show "wf_json v"
    proof (cases s)
      case Nil
      with p show ?thesis
        by (subst (asm) parse_value.simps) simp
    next
      case (Cons c cs)
      consider (obj) "c = 123" | (arr) "c \<noteq> 123" "c = 91" | (other) "c \<noteq> 123" "c \<noteq> 91"
        by blast
      then show ?thesis
      proof cases
        case obj
        show ?thesis
        proof (cases "skip_ws cs")
          case Nil
          with p Cons obj show ?thesis
            by (subst (asm) parse_value.simps) simp
        next
          case (Cons d r')
          show ?thesis
          proof (cases "d = 125")
            case True
            with p \<open>s = c # cs\<close> obj Cons show ?thesis
              by (subst (asm) parse_value.simps) auto
          next
            case False
            with p \<open>s = c # cs\<close> obj Cons obtain kvs where
              k: "parse_members (d # r') = Some (kvs, r)"
              and v: "v = JObj (foldl (\<lambda>al (k, v). AList.update k v al) [] kvs)"
              by (subst (asm) parse_value.simps) (auto split: option.splits)
            from 1(1) [OF \<open>s = c # cs\<close> obj Cons False] k
            have "list_all (\<lambda>(k, v). wf_json v) kvs"
              by blast
            then show ?thesis
              unfolding v by (intro foldl_update_wf) simp_all
          qed
        qed
      next
        case arr
        show ?thesis
        proof (cases "skip_ws cs")
          case Nil
          with p Cons arr show ?thesis
            by (subst (asm) parse_value.simps) simp
        next
          case (Cons d r')
          show ?thesis
          proof (cases "d = 93")
            case True
            with p \<open>s = c # cs\<close> arr Cons show ?thesis
              by (subst (asm) parse_value.simps) auto
          next
            case False
            with p \<open>s = c # cs\<close> arr Cons obtain vs where
              k: "parse_elements (d # r') = Some (vs, r)" and v: "v = JArr vs"
              by (subst (asm) parse_value.simps) (auto split: option.splits)
            from 1(2) [OF \<open>s = c # cs\<close> arr Cons False] k
            have "list_all wf_json vs"
              by blast
            then show ?thesis
              unfolding v by simp
          qed
        qed
      next
        case other
        with p Cons show ?thesis
          by (subst (asm) parse_value.simps)
             (auto split: if_splits dest: parse_number_wf)
      qed
    qed
  qed
next
  case (2 s)
  show ?case
  proof (intro allI impI)
    fix vs r
    assume p: "parse_elements s = Some (vs, r)"
    then obtain v r1 where v: "parse_value s = Some (v, r1)" and l: "length r1 < length s"
      by (subst (asm) parse_elements.simps) (auto split: option.splits if_splits)
    from 2(1) v have w: "wf_json v"
      by blast
    from p v l obtain d r' where d: "skip_ws r1 = d # r'"
      by (subst (asm) parse_elements.simps) (auto split: list.splits)
    show "list_all wf_json vs"
    proof (cases "d = 44")
      case True
      with p v l d obtain ws where e: "parse_elements (skip_ws r') = Some (ws, r)"
        and vs: "vs = v # ws"
        by (subst (asm) parse_elements.simps) auto
      from 2(2) [OF v refl l d True] e have "list_all wf_json ws"
        by blast
      with w vs show ?thesis by simp
    next
      case False
      with p v l d have "vs = [v]"
        by (subst (asm) parse_elements.simps) (auto split: if_splits)
      with w show ?thesis by simp
    qed
  qed
next
  case (3 s)
  show ?case
  proof (intro allI impI)
    fix kvs r
    assume p: "parse_members s = Some (kvs, r)"
    from p obtain q cs where s: "s = q # cs" and q: "q = 34"
      by (subst (asm) parse_members.simps) (auto split: list.splits if_splits)
    from p s q obtain k r0 where c: "parse_chars cs = Some (k, r0)"
      by (subst (asm) parse_members.simps) (auto split: option.splits)
    from p s q c obtain c' r1 where w: "skip_ws r0 = c' # r1" and c58: "c' = 58"
      by (subst (asm) parse_members.simps) (auto split: list.splits if_splits)
    from p s q c w c58 obtain v r2 where v: "parse_value (skip_ws r1) = Some (v, r2)"
      and l: "length r2 < length (skip_ws r1)"
      by (subst (asm) parse_members.simps) (auto split: option.splits if_splits)
    from 3(1) [OF s q c refl w c58] v have wv: "wf_json v"
      by blast
    from p s q c w c58 v l obtain d r3 where d: "skip_ws r2 = d # r3"
      by (subst (asm) parse_members.simps) (auto split: list.splits)
    show "list_all (\<lambda>(k, v). wf_json v) kvs"
    proof (cases "d = 44")
      case True
      with p s q c w c58 v l d obtain ms where e: "parse_members (skip_ws r3) = Some (ms, r)"
        and kvs: "kvs = (k, v) # ms"
        by (subst (asm) parse_members.simps) auto
      from 3(2) [OF s q c refl w c58 v refl l d True] e
      have "list_all (\<lambda>(k, v). wf_json v) ms"
        by blast
      with wv kvs show ?thesis by simp
    next
      case False
      with p s q c w c58 v l d have "kvs = [(k, v)]"
        by (subst (asm) parse_members.simps) (auto split: if_splits)
      with wv show ?thesis by simp
    qed
  qed
qed


lemma json_parse_wf: "json_parse s = Some v \<Longrightarrow> wf_json v"
  using parse_wf(1) [of "skip_ws s"]
  by (auto simp: json_parse_def split: option.splits if_splits)

section \<open>C1: content that cannot be parsed\<close>

text \<open>
  C1, as amended. For a request that is not a preflight and for which the handler obtained
  generated content: when the extraction or \<open>JSON.parse\<close> fails (the inner \<open>catch\<close>
  runs), the response is status 200 with exactly the fallback routine. When the text
  holds no fenced block and no opening brace with a closing brace after it, the whole
  text is parsed, and the routine is its value, or the fallback when it is not JSON.
\<close>

theorem unparsable_content_yields_fallback:
  assumes "req_method req \<noteq> js ''OPTIONS''"
    and "obtain_content e fetch req = (Inr generatedContent, cs, ls)"
  shows "(extract_routine generatedContent = None \<longrightarrow>
            response (serve e fetch req) = routine_response fallback_routine) \<and>
         (generatedContent = Val (JStr content) \<and>
          \<not> (\<exists>a b c. content = a @ fence_open @ b @ fence_close @ c) \<and>
          \<not> (\<exists>a b c. content = a @ [123] @ b @ [125] @ c) \<longrightarrow>
            response (serve e fetch req) =
              routine_response (case json_parse content of
                                  Some v \<Rightarrow> v
                                | None \<Rightarrow> fallback_routine))"
proof -
  have "candidate content = content"
    if "\<not> (\<exists>a b c. content = a @ fence_open @ b @ fence_close @ c)"
      and "\<not> (\<exists>a b c. content = a @ [123] @ b @ [125] @ c)"
    using that by (intro candidate_no_match no_fence_no_match no_brace_no_match)
  then show ?thesis
    using serve_ok(1) [OF assms]
    by (auto simp: routineData_def extract_routine_def)
qed

theorem unparsable_content_yields_fallback_witness:
  "response (serve example_env (provider_says 200 (completion (JStr (js ''Sure! Start with a stretch.''))))
       (example_request (js ''POST'') (JStr []))) =
     \<lparr> status = 200, headers = json_headers, body = RoutineBody fallback_routine \<rparr>"
proof -
  let ?content = "js ''Sure! Start with a stretch.''"
  let ?req = "example_request (js ''POST'') (JStr [])"
  let ?fetch = "provider_says 200 (completion (JStr ?content))"
  have m: "req_method ?req \<noteq> js ''OPTIONS''"
    by (simp add: example_request_def)
  have c: "obtain_content example_env ?fetch ?req =
             (Inr (Val (JStr ?content)),
              [provider_request (js ''secret'')
                 (js ''Create a routine based on this description: '' @ [34] @
                  js ''30-minute morning energizer'' @ [34])], [])"
    by (simp add: eval_defs)
  have x: "extract_routine (Val (JStr ?content)) = None"
    by (simp add: eval_defs)
  from unparsable_content_yields_fallback [OF m c] x show ?thesis
    by (simp add: routine_response_def)
qed

text \<open>
  C1 as stated fails: a text with no fenced block and no braces that is JSON by itself
  is returned as the routine, not replaced by the fallback.
\<close>

theorem whole_text_counterexample:
  \<open>bq \<notin> set (js ''["Wake up","Stretch"]'') \<and>
   123 \<notin> set (js ''["Wake up","Stretch"]'') \<and>
   response (serve example_env
       (provider_says 200 (completion (JStr (js ''["Wake up","Stretch"]''))))
       (example_request (js ''POST'') (JStr []))) =
     \<lparr> status = 200, headers = json_headers,
       body = RoutineBody (JArr [JStr (js ''Wake up''), JStr (js ''Stretch'')]) \<rparr> \<and>
   JArr [JStr (js ''Wake up''), JStr (js ''Stretch'')] \<noteq> fallback_routine\<close>
  by (simp add: eval_defs fallback_routine_def)

section \<open>C2: a fenced block is what is parsed\<close>

lemma json_parse_empty: "json_parse [] = None"
  by (simp add: json_parse_def skip_ws_def parse_value.simps)

lemma json_parse_fence: "json_parse (fence_open @ t) = None"
  by (simp add: json_parse_def skip_ws_def is_json_ws_def fence_open_def bq_def parse_value.simps
      parse_number_def parse_int_part_def is_digit_def)

text \<open>
  C2. Let the content hold an opening fence at its first occurrence, then white space,
  a block that neither starts nor ends with white space, white space, and the first
  closing fence after the opening one (every content with a fenced block splits in this
  way: lemma \<open>fenced_block_decomposition\<close>). Then the text handed to \<open>JSON.parse\<close> is
  that block, whatever stands before and after the fences, braces included: the routine
  is the value of the block, or the fallback when the block is not JSON (an empty block
  is not JSON, and neither is the fenced text that is parsed in its place).
\<close>

theorem fenced_block_is_parsed:
  assumes "content = pre @ fence_open @ ws1 @ block @ ws2 @ fence_close @ post"
    and "\<not> sublist fence_open (pre @ butlast fence_open)"
    and "\<forall>c \<in> set (ws1 @ ws2). is_space c"
    and "block \<noteq> [] \<longrightarrow> \<not> is_space (hd block) \<and> \<not> is_space (last block)"
    and "\<not> sublist fence_close (block @ ws2 @ [bq, bq])"
  shows "extract_routine (Val (JStr content)) = json_parse block \<and>
         routineData (Val (JStr content)) =
           (case json_parse block of Some v \<Rightarrow> v | None \<Rightarrow> fallback_routine) \<and>
         (block \<noteq> [] \<longrightarrow> candidate content = block)"
proof (cases "block = []")
  case True
  let ?ws = "ws1 @ ws2"
  have "\<not> sublist fence_close ([] @ [] @ [bq, bq])"
    by (simp add: fence_close_def sublist_Cons_right)
  then have "rsearch fence_re (pre @ fence_open @ ?ws @ [] @ [] @ fence_close @ post) =
      Some (fence_open @ ?ws @ [] @ [] @ fence_close, [[]])"
    using assms(2,3) by (intro fence_search) simp_all
  with True assms(1) have "candidate content = fence_open @ ?ws @ fence_close"
    by (simp add: candidate_def jsonMatch_def)
  then have "extract_routine (Val (JStr content)) = None"
    using json_parse_fence by (simp add: extract_routine_def)
  with True show ?thesis
    by (simp add: routineData_def json_parse_empty)
next
  case False
  have "rsearch fence_re content = Some (fence_open @ ws1 @ block @ ws2 @ fence_close, [block])"
    unfolding assms(1) using assms(2-5) False by (intro fence_search) simp_all
  with False have "candidate content = block"
    by (simp add: candidate_def jsonMatch_def)
  then show ?thesis
    by (simp add: extract_routine_def routineData_def)
qed

theorem fenced_block_is_parsed_witness:
  "candidate fenced_reply = energize_text \<and>
   routineData (Val (JStr fenced_reply)) = energize"
proof -
  let ?pre = "js ''Here is {'' @ [34] @ js ''draft'' @ [34] @ js '':true} your routine:'' @ [10]"
  let ?post = "[10] @ js ''Enjoy {'' @ [34] @ js ''x'' @ [34] @ js '':2}''"
  have c: "fenced_reply = ?pre @ fence_open @ [10] @ energize_text @ [10] @ fence_close @ ?post"
    by (simp add: fenced_reply_def fenced_def)
  have o: "\<not> sublist fence_open (?pre @ butlast fence_open)"
    by (simp add: fence_open_def bq_def sublist_Cons_right)
  have w: "\<forall>c \<in> set ([10] @ [10]). is_space c"
    by (simp add: is_space_def)
  have b: "energize_text \<noteq> [] \<longrightarrow>
      \<not> is_space (hd energize_text) \<and> \<not> is_space (last energize_text)"
    by (simp add: energize_text_def is_space_def)
  have n: "\<not> sublist fence_close (energize_text @ [10] @ [bq, bq])"
    by (simp add: energize_text_def fence_close_def bq_def sublist_Cons_right)
  have p: "json_parse energize_text = Some energize"
    by (simp add: eval_defs)
  have e: "energize_text \<noteq> []"
    by (simp add: energize_text_def)
  from fenced_block_is_parsed [OF c o w b n] p e show ?thesis
    by simp
qed

section \<open>C3: the span between braces\<close>

lemma no_backquote_no_fence:
  assumes "bq \<notin> set content"
  shows "\<not> (\<exists>a b c. content = a @ fence_open @ b @ fence_close @ c)"
proof
  assume "\<exists>a b c. content = a @ fence_open @ b @ fence_close @ c"
  then have "bq \<in> set content"
    by (auto simp: fence_open_def)
  with assms show False by simp
qed

text \<open>
  C3, as amended. When the content holds no fenced block and holds braces, the text
  handed to \<open>JSON.parse\<close> runs from the first opening brace to the last closing brace
  of the content: the repetition in the second expression is greedy.
\<close>

theorem brace_span_is_first_to_last:
  assumes "content = pre @ [123] @ mid @ [125] @ post"
    and "123 \<notin> set pre" and "125 \<notin> set post"
    and "\<not> (\<exists>a b c. content = a @ fence_open @ b @ fence_close @ c)"
  shows "candidate content = [123] @ mid @ [125] \<and>
         extract_routine (Val (JStr content)) = json_parse ([123] @ mid @ [125])"
proof -
  have "rsearch fence_re content = None"
    using assms(4) by (rule no_fence_no_match)
  moreover have "rsearch brace_re content = Some (123 # mid @ [125], [])"
    unfolding assms(1) using brace_search [OF assms(2,3), of mid] by simp
  ultimately have "candidate content = [123] @ mid @ [125]"
    by (simp add: candidate_def jsonMatch_def)
  then show ?thesis
    by (simp add: extract_routine_def)
qed

theorem brace_span_is_first_to_last_witness:
  "candidate two_objects =
     [123] @ morning_inner @ [125] @ js '' Option B: '' @ [123] @ evening_inner @ [125]"
proof -
  let ?mid = "morning_inner @ [125] @ js '' Option B: '' @ [123] @ evening_inner"
  have c: "two_objects = js ''Option A: '' @ [123] @ ?mid @ [125] @ js '' Pick one.''"
    by (simp add: two_objects_def)
  have a: "123 \<notin> set (js ''Option A: '')" and z: "125 \<notin> set (js '' Pick one.'')"
    by simp_all
  have "bq \<notin> set two_objects"
    by (simp add: two_objects_def morning_inner_def evening_inner_def bq_def)
  then have f: "\<not> (\<exists>a b c. two_objects = a @ fence_open @ b @ fence_close @ c)"
    by (rule no_backquote_no_fence)
  from brace_span_is_first_to_last [OF c a z f] show ?thesis
    by simp
qed

text \<open>
  C3 as stated fails: with two objects in the content, what is parsed is not the first
  object (which is JSON, and a routine) but the text from the first brace to the last
  one, which is not JSON, so that the fallback is returned.
\<close>

theorem two_objects_counterexample:
  "json_parse ([123] @ morning_inner @ [125]) = Some morning \<and>
   candidate two_objects \<noteq> [123] @ morning_inner @ [125] \<and>
   json_parse (candidate two_objects) = None \<and>
   routineData (Val (JStr two_objects)) = fallback_routine \<and>
   fallback_routine \<noteq> morning"
  by (simp add: eval_defs fallback_routine_def)

section \<open>C4: failures answered with status 500\<close>

lemma no_key_not_prepared:
  assumes "gemini_api_key e = None \<or> gemini_api_key e = Some []"
  shows "prepare_call e req = Inl (Platform RequestBodyNotJson) \<or>
         prepare_call e req = Inl (Platform DestructureOfNull) \<or>
         prepare_call e req = Inl (Thrown (js ''GEMINI_API_KEY is not configured''))"
  using assms by (auto simp: prepare_call_def Let_def split: option.splits)

lemma no_key_readable:
  assumes "gemini_api_key e = None \<or> gemini_api_key e = Some []"
    and "req_json req = Some b" and "b \<noteq> JNull"
  shows "prepare_call e req = Inl (Thrown (js ''GEMINI_API_KEY is not configured''))"
  using assms by (auto simp: prepare_call_def Let_def split: option.splits)

lemma read_no_content:
  assumes "resp_ok p" and "json_parse (resp_body p) = Some data"
    and "generated_content data = Inr g"
    and "g = Undefined \<or> g = Val JNull \<or> g = Val (JStr [])"
  shows "read_content (FetchResponse p) =
           (Inl (Thrown (js ''No content generated from Gemini API'')), [])"
  using assms by (auto simp: read_content_def)

text \<open>
  C4, as amended. For a request that is not a preflight: when the key is missing or
  empty, no call is made and the response is the error payload with status 500, with
  the message \<open>GEMINI_API_KEY is not configured\<close> when the request body could be read;
  when the one call to the provider rejects, answers with a status outside 200 to 299,
  or answers with missing, \<open>null\<close> or empty content, the response is the error payload
  with status 500 and the message of that failure. The body is never a routine, the
  call is made once and not repeated.
\<close>

theorem hard_failures_answer_500:
  assumes "req_method req \<noteq> js ''OPTIONS''"
  shows "(gemini_api_key e = None \<or> gemini_api_key e = Some [] \<longrightarrow>
            calls (serve e fetch req) = [] \<and>
            (response (serve e fetch req) = error_response (Platform RequestBodyNotJson) \<or>
             response (serve e fetch req) = error_response (Platform DestructureOfNull) \<or>
             response (serve e fetch req) =
               error_response (Thrown (js ''GEMINI_API_KEY is not configured'')))) \<and>
         ((gemini_api_key e = None \<or> gemini_api_key e = Some []) \<and>
          req_json req = Some b \<and> b \<noteq> JNull \<longrightarrow>
            response (serve e fetch req) =
              \<lparr> status = 500, headers = json_headers,
                body = ErrorBody (js ''Failed to generate routine'')
                         (Message (js ''GEMINI_API_KEY is not configured'')) \<rparr>) \<and>
         (prepare_call e req = Inr call \<and> fetch call = FetchRejected \<longrightarrow>
            calls (serve e fetch req) = [call] \<and>
            response (serve e fetch req) =
              \<lparr> status = 500, headers = json_headers,
                body = ErrorBody (js ''Failed to generate routine'')
                         (PlatformMessage FetchFailed) \<rparr>) \<and>
         (prepare_call e req = Inr call \<and> fetch call = FetchResponse p \<and> \<not> resp_ok p \<longrightarrow>
            calls (serve e fetch req) = [call] \<and>
            response (serve e fetch req) =
              \<lparr> status = 500, headers = json_headers,
                body = ErrorBody (js ''Failed to generate routine'')
                         (Message (js ''Gemini API request failed: '' @
                                   show_nat (resp_status p) @ [32] @ resp_status_text p)) \<rparr>) \<and>
         (prepare_call e req = Inr call \<and> fetch call = FetchResponse p \<and> resp_ok p \<and>
          json_parse (resp_body p) = Some data \<and> generated_content data = Inr g \<and>
          (g = Undefined \<or> g = Val JNull \<or> g = Val (JStr [])) \<longrightarrow>
            calls (serve e fetch req) = [call] \<and>
            response (serve e fetch req) =
              \<lparr> status = 500, headers = json_headers,
                body = ErrorBody (js ''Failed to generate routine'')
                         (Message (js ''No content generated from Gemini API'')) \<rparr>)"
proof (intro conjI impI)
  assume k: "gemini_api_key e = None \<or> gemini_api_key e = Some []"
  from no_key_not_prepared [OF k, of req]
  show "calls (serve e fetch req) = []"
    using serve_not_prepared(2) [OF assms] by blast
  from no_key_not_prepared [OF k, of req]
  show "response (serve e fetch req) = error_response (Platform RequestBodyNotJson) \<or>
        response (serve e fetch req) = error_response (Platform DestructureOfNull) \<or>
        response (serve e fetch req) =
          error_response (Thrown (js ''GEMINI_API_KEY is not configured''))"
    using serve_not_prepared(1) [OF assms] by blast
next
  assume "(gemini_api_key e = None \<or> gemini_api_key e = Some []) \<and>
          req_json req = Some b \<and> b \<noteq> JNull"
  then have "prepare_call e req = Inl (Thrown (js ''GEMINI_API_KEY is not configured''))"
    using no_key_readable by blast
  from serve_not_prepared(1) [OF assms this]
  show "response (serve e fetch req) =
          \<lparr> status = 500, headers = json_headers,
            body = ErrorBody (js ''Failed to generate routine'')
                     (Message (js ''GEMINI_API_KEY is not configured'')) \<rparr>"
    by (simp add: error_response_def)
next
  assume h: "prepare_call e req = Inr call \<and> fetch call = FetchRejected"
  then have r: "read_content (fetch call) = (Inl (Platform FetchFailed), [])"
    by (simp add: read_content_def)
  from h serve_not_read(2) [where fetch = fetch and call = call, OF assms _ r] show "calls (serve e fetch req) = [call]"
    by blast
  from h serve_not_read(1) [where fetch = fetch and call = call, OF assms _ r]
  show "response (serve e fetch req) =
          \<lparr> status = 500, headers = json_headers,
            body = ErrorBody (js ''Failed to generate routine'') (PlatformMessage FetchFailed) \<rparr>"
    by (simp add: error_response_def)
next
  assume h: "prepare_call e req = Inr call \<and> fetch call = FetchResponse p \<and> \<not> resp_ok p"
  then have r: "read_content (fetch call) =
      (Inl (Thrown (js ''Gemini API request failed: '' @ show_nat (resp_status p) @ [32] @
              resp_status_text p)), [LogGeminiError (resp_body p)])"
    by (simp add: read_content_def)
  from h serve_not_read(2) [where fetch = fetch and call = call, OF assms _ r] show "calls (serve e fetch req) = [call]"
    by blast
  from h serve_not_read(1) [where fetch = fetch and call = call, OF assms _ r]
  show "response (serve e fetch req) =
          \<lparr> status = 500, headers = json_headers,
            body = ErrorBody (js ''Failed to generate routine'')
                     (Message (js ''Gemini API request failed: '' @
                               show_nat (resp_status p) @ [32] @ resp_status_text p)) \<rparr>"
    by (simp add: error_response_def)
next
  assume h: "prepare_call e req = Inr call \<and> fetch call = FetchResponse p \<and> resp_ok p \<and>
          json_parse (resp_body p) = Some data \<and> generated_content data = Inr g \<and>
          (g = Undefined \<or> g = Val JNull \<or> g = Val (JStr []))"
  then have r: "read_content (fetch call) =
      (Inl (Thrown (js ''No content generated from Gemini API'')), [])"
    using read_no_content [of p data g] by simp
  from h serve_not_read(2) [where fetch = fetch and call = call, OF assms _ r] show "calls (serve e fetch req) = [call]"
    by blast
  from h serve_not_read(1) [where fetch = fetch and call = call, OF assms _ r]
  show "response (serve e fetch req) =
          \<lparr> status = 500, headers = json_headers,
            body = ErrorBody (js ''Failed to generate routine'')
                     (Message (js ''No content generated from Gemini API'')) \<rparr>"
    by (simp add: error_response_def)
qed

theorem hard_failures_answer_500_witness:
  "response (serve \<lparr> gemini_api_key = None \<rparr> (provider_says 200 [])
      (example_request (js ''POST'') (JStr []))) =
     \<lparr> status = 500, headers = json_headers,
       body = ErrorBody (js ''Failed to generate routine'')
                (Message (js ''GEMINI_API_KEY is not configured'')) \<rparr> \<and>
   response (serve example_env (provider_says 503 (js ''overloaded''))
      (example_request (js ''POST'') (JStr []))) =
     \<lparr> status = 500, headers = json_headers,
       body = ErrorBody (js ''Failed to generate routine'')
                (Message (js ''Gemini API request failed: 503 status'')) \<rparr> \<and>
   calls (serve example_env (provider_says 503 (js ''overloaded''))
      (example_request (js ''POST'') (JStr []))) =
     [provider_request (js ''secret'')
        (js ''Create a routine based on this description: '' @ [34] @
         js ''30-minute morning energizer'' @ [34])]"
proof -
  let ?req = "example_request (js ''POST'') (JStr [])"
  let ?call = "provider_request (js ''secret'')
        (js ''Create a routine based on this description: '' @ [34] @
         js ''30-minute morning energizer'' @ [34])"
  let ?p = "\<lparr> resp_status = 503, resp_status_text = js ''status'', resp_body = js ''overloaded'' \<rparr>"
  have m: "req_method ?req \<noteq> js ''OPTIONS''"
    by (simp add: example_request_def)
  have b: "req_json ?req = Some (JObj [(js ''prompt'', JStr (js ''30-minute morning energizer'')),
                              (js ''image'', JStr [])])"
    by (simp add: example_request_def)
  have c: "prepare_call example_env ?req = Inr ?call"
    by (simp add: eval_defs)
  have f: "provider_says 503 (js ''overloaded'') ?call = FetchResponse ?p"
    by (simp add: provider_says_def)
  have n: "\<not> resp_ok ?p"
    by (simp add: resp_ok_def)
  have s: "show_nat 503 = js ''503''"
    by (simp add: show_nat.simps)
  from hard_failures_answer_500 [OF m, where e = "\<lparr> gemini_api_key = None \<rparr>"
      and fetch = "provider_says 200 []"
      and b = "JObj [(js ''prompt'', JStr (js ''30-minute morning energizer'')), (js ''image'', JStr [])]"] b
  have 1: "response (serve \<lparr> gemini_api_key = None \<rparr> (provider_says 200 []) ?req) =
     \<lparr> status = 500, headers = json_headers,
       body = ErrorBody (js ''Failed to generate routine'')
                (Message (js ''GEMINI_API_KEY is not configured'')) \<rparr>"
    by simp
  from hard_failures_answer_500 [OF m, where e = example_env
      and fetch = "provider_says 503 (js ''overloaded'')" and call = ?call and p = ?p] c f n s
  have 2: "calls (serve example_env (provider_says 503 (js ''overloaded'')) ?req) = [?call] \<and>
     response (serve example_env (provider_says 503 (js ''overloaded'')) ?req) =
     \<lparr> status = 500, headers = json_headers,
       body = ErrorBody (js ''Failed to generate routine'')
                (Message (js ''Gemini API request failed: 503 status'')) \<rparr>"
    by simp
  from 1 2 show ?thesis by simp
qed

text \<open>
  C4 as stated fails for a preflight request: it is answered before the key is read,
  with status 200 and the body \<open>ok\<close>.
\<close>

theorem preflight_without_key_counterexample:
  "gemini_api_key \<lparr> gemini_api_key = None \<rparr> = None \<and>
   response (serve \<lparr> gemini_api_key = None \<rparr> (provider_says 200 [])
      (example_request (js ''OPTIONS'') (JStr []))) =
     \<lparr> status = 200, headers = corsHeaders, body = TextBody (js ''ok'') \<rparr>"
  by (simp add: serve_def example_request_def preflight_response_def)

section \<open>C5: the routine of a response with status 200\<close>

lemma is_routine_fallback: "is_routine fallback_routine"
  by (simp add: is_routine_def is_step_def has_string_def has_optional_string_def fallback_routine_def)

lemma serve_200_read:
  assumes "req_method req \<noteq> js ''OPTIONS''" and "status (response (serve e fetch req)) = 200"
  shows "\<exists>call r' data generatedContent.
           prepare_call e req = Inr call \<and> fetch call = FetchResponse r' \<and> resp_ok r' \<and>
           json_parse (resp_body r') = Some data \<and>
           generated_content data = Inr generatedContent \<and> truthy generatedContent \<and>
           obtain_content e fetch req = (Inr generatedContent, [call], [])"
proof (cases "prepare_call e req")
  case (Inl f)
  then show ?thesis
    using assms serve_not_prepared(1) [OF assms(1) Inl, of fetch] by (simp add: error_response_def)
next
  case (Inr call)
  show ?thesis
  proof (cases "read_content (fetch call)")
    case (Pair c ls)
    show ?thesis
    proof (cases c)
      case (Inl f)
      then show ?thesis
        using assms serve_not_read(1) [OF assms(1) Inr, of fetch f ls] Pair
        by (simp add: error_response_def)
    next
      case r: (Inr g)
      from Pair r have "read_content (fetch call) = (Inr g, ls)" by simp
      then obtain r' data where "fetch call = FetchResponse r'" "resp_ok r'"
        "json_parse (resp_body r') = Some data" "generated_content data = Inr g" "truthy g" "ls = []"
        by (auto simp: read_content_def split: fetch_result.splits if_splits option.splits sum.splits)
      then show ?thesis
        using Inr Pair r by (auto simp: obtain_content_def)
    qed
  qed
qed

text \<open>
  C5, as amended. For a request that is not a preflight and is answered with status 200,
  the handler made one call, the provider answered it with a success status and a JSON
  body, and \<open>generatedContent\<close> is what \<open>data.choices[0]?.message?.content\<close> reads from
  that body. The routine of the response is then the value \<open>JSON.parse\<close> gave for the
  candidate extracted from that content, returned as it is (the handler checks no field
  of it), or, when the content is no string or its candidate does not parse, the fixed
  fallback routine, which has the shape of the data model.
\<close>

theorem ok_routine_is_parsed_or_fallback:
  assumes "req_method req \<noteq> js ''OPTIONS''"
    and "status (response (serve e fetch req)) = 200"
  shows "\<exists>call answer data generatedContent.
           prepare_call e req = Inr call \<and>
           calls (serve e fetch req) = [call] \<and>
           fetch call = FetchResponse answer \<and> resp_ok answer \<and>
           json_parse (resp_body answer) = Some data \<and>
           generated_content data = Inr generatedContent \<and>
           ((\<exists>content routine.
               generatedContent = Val (JStr content) \<and>
               json_parse (candidate content) = Some routine \<and>
               body (response (serve e fetch req)) = RoutineBody routine) \<or>
            ((\<forall>content. generatedContent = Val (JStr content) \<longrightarrow>
                 json_parse (candidate content) = None) \<and>
             body (response (serve e fetch req)) = RoutineBody fallback_routine \<and>
             is_routine fallback_routine))"
proof -
  from serve_200_read [OF assms] obtain call answer data g
    where p: "prepare_call e req = Inr call" and f: "fetch call = FetchResponse answer"
      and k: "resp_ok answer" and d: "json_parse (resp_body answer) = Some data"
      and c: "generated_content data = Inr g"
      and o: "obtain_content e fetch req = (Inr g, [call], [])"
    by blast
  have b: "body (response (serve e fetch req)) = RoutineBody (routineData g)"
    using serve_ok(1) [OF assms(1) o] by (simp add: routine_response_def)
  have cs: "calls (serve e fetch req) = [call]"
    using serve_ok(2) [OF assms(1) o] .
  have "(\<exists>content routine.
               g = Val (JStr content) \<and>
               json_parse (candidate content) = Some routine \<and>
               body (response (serve e fetch req)) = RoutineBody routine) \<or>
            ((\<forall>content. g = Val (JStr content) \<longrightarrow>
                 json_parse (candidate content) = None) \<and>
             body (response (serve e fetch req)) = RoutineBody fallback_routine \<and>
             is_routine fallback_routine)"
  proof (cases "extract_routine g")
    case None
    then have "routineData g = fallback_routine"
      by (simp add: routineData_def)
    moreover from None have "\<forall>content. g = Val (JStr content) \<longrightarrow>
                 json_parse (candidate content) = None"
      by (auto simp: extract_routine_def)
    ultimately show ?thesis
      using b is_routine_fallback by simp
  next
    case (Some v)
    then obtain content where "g = Val (JStr content)" "json_parse (candidate content) = Some v"
      by (auto simp: extract_routine_def split: jsval.splits json.splits)
    moreover from Some have "routineData g = v"
      by (simp add: routineData_def)
    ultimately show ?thesis using b by simp
  qed
  with p cs f k d c show ?thesis by blast
qed

theorem ok_routine_is_parsed_or_fallback_witness:
  "status (response (serve example_env
       (provider_says 200 (completion (JStr (fenced (stringify energize)))))
       (example_request (js ''POST'') (JStr [])))) = 200 \<and>
   body (response (serve example_env
       (provider_says 200 (completion (JStr (fenced (stringify energize)))))
       (example_request (js ''POST'') (JStr [])))) = RoutineBody energize \<and>
   is_routine energize"
proof -
  let ?req = "example_request (js ''POST'') (JStr [])"
  let ?text = "fenced (stringify energize)"
  let ?fetch = "provider_says 200 (completion (JStr ?text))"
  have m: "req_method ?req \<noteq> js ''OPTIONS''"
    by (simp add: example_request_def)
  have r: "response (serve example_env ?fetch ?req) = routine_response energize"
    by (simp add: eval_defs)
  then have s: "status (response (serve example_env ?fetch ?req)) = 200"
    by (simp add: routine_response_def)
  have i: "is_routine energize"
    by (simp add: is_routine_def is_step_def has_string_def has_optional_string_def energize_def)
  have d: "json_parse (completion (JStr ?text)) =
      Some (JObj [(js ''choices'', JArr [JObj [(js ''message'', JObj [(js ''content'', JStr ?text)])]])])"
    by (simp add: eval_defs)
  have p: "json_parse (candidate ?text) = Some energize"
    by (simp add: eval_defs)
  have e: "energize \<noteq> fallback_routine"
    by (simp add: energize_def fallback_routine_def)
  from ok_routine_is_parsed_or_fallback [OF m s]
  obtain call answer data g where "?fetch call = FetchResponse answer"
    and "json_parse (resp_body answer) = Some data"
    and "generated_content data = Inr g"
    and "(\<exists>content routine.
               g = Val (JStr content) \<and>
               json_parse (candidate content) = Some routine \<and>
               body (response (serve example_env ?fetch ?req)) = RoutineBody routine) \<or>
            ((\<forall>content. g = Val (JStr content) \<longrightarrow>
                 json_parse (candidate content) = None) \<and>
             body (response (serve example_env ?fetch ?req)) = RoutineBody fallback_routine \<and>
             is_routine fallback_routine)"
    by blast
  then have "body (response (serve example_env ?fetch ?req)) = RoutineBody energize"
    using d p by (auto simp: provider_says_def generated_content_def)
  with s i show ?thesis by simp
qed

text \<open>
  C5 as stated fails: an object the provider returns with a title only is passed on
  with status 200, and it is no routine of the data model.
\<close>

theorem unvalidated_routine_counterexample:
  \<open>response (serve example_env
       (provider_says 200 (completion (JStr (js ''{"title":"Energize"}''))))
       (example_request (js ''POST'') (JStr []))) =
     \<lparr> status = 200, headers = json_headers,
       body = RoutineBody (JObj [(js ''title'', JStr (js ''Energize''))]) \<rparr> \<and>
   \<not> is_routine (JObj [(js ''title'', JStr (js ''Energize''))])\<close>
  by (simp add: eval_defs is_routine_def has_string_def)

section \<open>C6: saving and loading\<close>


text \<open>
  Every operation of the editor keeps the routine well-formed: the values it stores come
  from \<open>JSON.parse\<close>.
\<close>

lemma get_prop_wf: "wf_json v \<Longrightarrow> get_prop v k = Val x \<Longrightarrow> wf_json x"
proof (cases v)
  case (JObj kvs)
  assume "wf_json v" "get_prop v k = Val x"
  with JObj have "(k, x) \<in> set kvs" "list_all (\<lambda>(k, v). wf_json v) kvs"
    by (auto split: option.splits dest: map_of_SomeD)
  then show ?thesis
    by (auto simp: list_all_iff)
qed simp_all

lemma editor_ok_initial: "editor_ok (initial slot)"
  by (simp add: editor_ok_def initial_def)

lemma editor_ok_load_saved: "editor_ok st \<Longrightarrow> editor_ok (load_saved st)"
  by (auto simp: editor_ok_def load_saved_def split: option.splits dest: json_parse_wf)

lemma editor_ok_startup: "editor_ok (startup slot)"
  unfolding startup_def by (intro editor_ok_load_saved editor_ok_initial)

lemma editor_ok_handleImageUpload: "editor_ok st \<Longrightarrow> editor_ok (handleImageUpload chosen st)"
  by (auto simp: editor_ok_def handleImageUpload_def split: option.splits)

lemma editor_ok_handleEditToggle: "editor_ok st \<Longrightarrow> editor_ok (handleEditToggle st)"
  by (auto simp: editor_ok_def handleEditToggle_def split: option.splits dest: json_parse_wf)

lemma editor_ok_saveRoutine: "editor_ok st \<Longrightarrow> editor_ok (saveRoutine accepts st)"
  by (auto simp: editor_ok_def saveRoutine_def Let_def split: option.splits dest: json_parse_wf)

lemma editor_ok_generateRoutine: "editor_ok st \<Longrightarrow> editor_ok (generateRoutine fetch st)"
proof -
  assume ok: "editor_ok st"
  have "editor_ok (st'\<lparr>generatedRoutine := get_prop data k\<rparr>)" if "json_parse payload = Some data"
    for st' :: editor and data payload k
    using json_parse_wf [OF that] get_prop_wf [of data k]
    by (cases "get_prop data k") (auto simp: editor_ok_def)
  then show ?thesis
    using ok
    by (auto simp: generateRoutine_def generation_failed_def Let_def editor_ok_def
        split: option.splits client_fetch_result.splits jsval.splits dest: json_parse_wf get_prop_wf)
qed



section \<open>C7: leaving edit mode with invalid JSON\<close>

text \<open>
  C7. In edit mode, when the edited text is not valid JSON, \<open>handleEditToggle\<close> changes
  nothing but the notifications: the routine shown is the one shown before, the editor
  stays in edit mode, and the error notification is added.
\<close>

theorem invalid_edit_keeps_routine:
  assumes "isEditing st" and "editableRoutine st = Some edited" and "json_parse edited = None"
  shows "handleEditToggle st =
           st\<lparr>toasts := toasts st @
                [Toast (js ''Invalid format'')
                   (js ''Please check your JSON format before saving.'') True]\<rparr> \<and>
         generatedRoutine (handleEditToggle st) = generatedRoutine st \<and>
         isEditing (handleEditToggle st)"
  using assms by (simp add: handleEditToggle_def string_of_def)

theorem invalid_edit_keeps_routine_witness:
  "generatedRoutine (handleEditToggle example_editor) = Val energize \<and>
   isEditing (handleEditToggle example_editor) \<and>
   toasts (handleEditToggle example_editor) =
     [Toast (js ''Invalid format'') (js ''Please check your JSON format before saving.'') True]"
proof -
  have e: "isEditing example_editor"
    by (simp add: example_editor_def)
  have t: \<open>editableRoutine example_editor = Some (js ''{"title": "Energize",'')\<close>
    by (simp add: example_editor_def)
  have p: \<open>json_parse (js ''{"title": "Energize",'') = None\<close>
    by (simp add: eval_defs)
  from invalid_edit_keeps_routine [OF e t p] show ?thesis
    by (simp add: example_editor_def initial_def)
qed

section \<open>C8: the generate operation\<close>

text \<open>
  C8. When the input is empty (or white space only: the guard trims it),
  \<open>generateRoutine\<close> adds the notification and does nothing else: no request is sent.
  Otherwise, when the request fails (the call rejects, the response is not ok, or its
  body is not JSON or is \<open>null\<close>), the routine and the raw text are the ones from
  before, the failure notification is added and the editor is not generating. And
  whenever the call settles at all, with success or with failure, the editor is not
  generating afterwards.
\<close>

theorem generate_guard_and_failure:
  "(trim (userInput st) = [] \<longrightarrow>
      generateRoutine fetch st =
        st\<lparr>toasts := toasts st @
             [Toast (js ''Input required'')
                (js ''Please describe what kind of routine you want to create.'') True]\<rparr> \<and>
      requests (generateRoutine fetch st) = requests st) \<and>
   (trim (userInput st) \<noteq> [] \<and>
    (imageFile st = None \<or> (\<exists>f url. imageFile st = Some f \<and> file_data_url f = Some url)) \<and>
    (\<forall>req. fetch req = NetworkError \<or>
           (\<exists>payload. fetch req = HttpResponse False payload) \<or>
           (\<exists>payload. fetch req = HttpResponse True payload \<and>
              (json_parse payload = None \<or> json_parse payload = Some JNull))) \<longrightarrow>
      generatedRoutine (generateRoutine fetch st) = generatedRoutine st \<and>
      editableRoutine (generateRoutine fetch st) = editableRoutine st \<and>
      toasts (generateRoutine fetch st) =
        toasts st @
          [Toast (js ''Generation failed'')
             (js ''Unable to generate routine. Please try again.'') True] \<and>
      \<not> isGenerating (generateRoutine fetch st)) \<and>
   (trim (userInput st) \<noteq> [] \<and> (\<forall>req. fetch req \<noteq> NeverSettles) \<longrightarrow>
      \<not> isGenerating (generateRoutine fetch st))"
proof (intro conjI impI)
  assume "trim (userInput st) = []"
  then show "generateRoutine fetch st =
        st\<lparr>toasts := toasts st @
             [Toast (js ''Input required'')
                (js ''Please describe what kind of routine you want to create.'') True]\<rparr>"
    by (simp add: generateRoutine_def)
  then show "requests (generateRoutine fetch st) = requests st"
    by simp
next
  assume h: "trim (userInput st) \<noteq> [] \<and>
    (imageFile st = None \<or> (\<exists>f url. imageFile st = Some f \<and> file_data_url f = Some url)) \<and>
    (\<forall>req. fetch req = NetworkError \<or>
           (\<exists>payload. fetch req = HttpResponse False payload) \<or>
           (\<exists>payload. fetch req = HttpResponse True payload \<and>
              (json_parse payload = None \<or> json_parse payload = Some JNull)))"
  then obtain url where u: "(case imageFile st of None \<Rightarrow> Some [] | Some f \<Rightarrow> file_data_url f) = Some url"
    by (auto split: option.splits)
  let ?req = "generate_request (userInput st) url"
  let ?st2 = "st\<lparr>isGenerating := True, requests := requests st @ [?req]\<rparr>"
  from h have f: "fetch ?req = NetworkError \<or>
           (\<exists>payload. fetch ?req = HttpResponse False payload) \<or>
           (\<exists>payload. fetch ?req = HttpResponse True payload \<and>
              (json_parse payload = None \<or> json_parse payload = Some JNull))"
    by blast
  from h have t: "trim (userInput st) \<noteq> []"
    by simp
  have "generateRoutine fetch st = generation_failed ?st2"
    using t u f
    by (auto simp: generateRoutine_def Let_def split: client_fetch_result.splits option.splits)
  then show "generatedRoutine (generateRoutine fetch st) = generatedRoutine st"
    and "editableRoutine (generateRoutine fetch st) = editableRoutine st"
    and "toasts (generateRoutine fetch st) =
        toasts st @
          [Toast (js ''Generation failed'')
             (js ''Unable to generate routine. Please try again.'') True]"
    and "\<not> isGenerating (generateRoutine fetch st)"
    by (simp_all add: generation_failed_def)
next
  assume "trim (userInput st) \<noteq> [] \<and> (\<forall>req. fetch req \<noteq> NeverSettles)"
  then show "\<not> isGenerating (generateRoutine fetch st)"
    by (auto simp: generateRoutine_def generation_failed_def Let_def
        split: client_fetch_result.splits option.splits)
qed

theorem generate_guard_and_failure_witness:
  "generateRoutine (\<lambda>req. NetworkError) (initial None) =
     (initial None)\<lparr>toasts :=
        [Toast (js ''Input required'')
           (js ''Please describe what kind of routine you want to create.'') True]\<rparr> \<and>
   generatedRoutine (generateRoutine (\<lambda>req. NetworkError) example_editor) = Val energize \<and>
   toasts (generateRoutine (\<lambda>req. NetworkError) example_editor) =
     [Toast (js ''Generation failed'') (js ''Unable to generate routine. Please try again.'') True] \<and>
   \<not> isGenerating (generateRoutine (\<lambda>req. NetworkError) example_editor)"
proof -
  have a: "trim (userInput (initial None)) = []"
    by (simp add: initial_def trim_def)
  have b: "trim (userInput example_editor) \<noteq> []"
    by (simp add: example_editor_def trim_def is_space_def)
  have c: "imageFile example_editor = None"
    by (simp add: example_editor_def initial_def)
  have d: "\<forall>req. (\<lambda>req. NetworkError) req \<noteq> NeverSettles"
    by simp
  from generate_guard_and_failure [of "initial None" "\<lambda>req. NetworkError"] a
  have 1: "generateRoutine (\<lambda>req. NetworkError) (initial None) =
     (initial None)\<lparr>toasts :=
        [Toast (js ''Input required'')
           (js ''Please describe what kind of routine you want to create.'') True]\<rparr>"
    by (simp add: initial_def)
  from generate_guard_and_failure [of example_editor "\<lambda>req. NetworkError"] b c d
  have 2: "generatedRoutine (generateRoutine (\<lambda>req. NetworkError) example_editor) = Val energize \<and>
   toasts (generateRoutine (\<lambda>req. NetworkError) example_editor) =
     [Toast (js ''Generation failed'') (js ''Unable to generate routine. Please try again.'') True] \<and>
   \<not> isGenerating (generateRoutine (\<lambda>req. NetworkError) example_editor)"
    by (simp add: example_editor_def initial_def)
  from 1 2 show ?thesis by simp
qed

section \<open>C9: the user message sent to the provider\<close>

lemma sent_user_message_request: "sent_user_message (provider_request key content) = Val (JStr content)"
  by (simp add: sent_user_message_def provider_request_def message_def)

lemma user_message_text:
  "user_message (Val (JStr prompt)) img =
     Some (if truthy img
           then js ''Create a routine based on this description: '' @ [34] @ prompt @ [34] @
                image_sentence @ image_note
           else js ''Create a routine based on this description: '' @ [34] @ prompt @ [34])"
  by (simp add: user_message_def to_string_val_def)

lemma calls_prepared:
  assumes "call \<in> set (calls (serve e fetch req))"
  shows "prepare_call e req = Inr call"
  using assms
  by (auto simp: serve_def obtain_content_def split: if_splits sum.splits prod.splits)

lemma prepared_text_prompt:
  assumes "prepare_call e req = Inr call" and "req_json req = Some (JObj kvs)"
    and "map_of kvs (js ''prompt'') = Some (JStr prompt)"
  shows "\<exists>key content. gemini_api_key e = Some key \<and> call = provider_request key content \<and>
           user_message (Val (JStr prompt)) (get_prop (JObj kvs) (js ''image'')) = Some content"
  using assms
  by (auto simp: prepare_call_def Let_def split: option.splits if_splits)

text \<open>
  C9. For a request whose body carries a text prompt, every call the handler sends to
  the provider has, as its user message, the prompt between the quotes of the fixed
  template: with no image property, nothing follows the closing quote; with an image (a
  string that is not empty), the sentence about the image and the fixed note follow,
  letter for letter. The call is determined by the key and that text: the image data
  is in no part of it.
\<close>

theorem outbound_user_message:
  assumes "req_json req = Some (JObj kvs)"
    and "map_of kvs (js ''prompt'') = Some (JStr prompt)"
    and "call \<in> set (calls (serve e fetch req))"
  shows "\<exists>key. gemini_api_key e = Some key \<and>
           (map_of kvs (js ''image'') = None \<longrightarrow>
              call = provider_request key
                (js ''Create a routine based on this description: '' @ [34] @ prompt @ [34]) \<and>
              sent_user_message call =
                Val (JStr (js ''Create a routine based on this description: '' @ [34] @
                           prompt @ [34]))) \<and>
           (\<forall>data. map_of kvs (js ''image'') = Some (JStr data) \<and> data \<noteq> [] \<longrightarrow>
              call = provider_request key
                (js ''Create a routine based on this description: '' @ [34] @ prompt @ [34] @
                 js ''. I'' @ [39] @ js ''ve also included an image for additional context.'' @
                 [10, 10] @
                 js ''Note: Image context has been provided for additional guidance.'') \<and>
              sent_user_message call =
                Val (JStr (js ''Create a routine based on this description: '' @ [34] @
                           prompt @ [34] @
                           js ''. I'' @ [39] @
                           js ''ve also included an image for additional context.'' @
                           [10, 10] @
                           js ''Note: Image context has been provided for additional guidance.'')))"
proof -
  from prepared_text_prompt [OF calls_prepared [OF assms(3)] assms(1,2)]
  obtain key content where k: "gemini_api_key e = Some key"
    and c: "call = provider_request key content"
    and u: "user_message (Val (JStr prompt)) (get_prop (JObj kvs) (js ''image'')) = Some content"
    by blast
  have a: "map_of kvs (js ''image'') = None \<Longrightarrow>
      content = js ''Create a routine based on this description: '' @ [34] @ prompt @ [34]"
    using u by (simp add: user_message_text)
  have b: "map_of kvs (js ''image'') = Some (JStr data) \<Longrightarrow> data \<noteq> [] \<Longrightarrow>
      content = js ''Create a routine based on this description: '' @ [34] @ prompt @ [34] @
                 js ''. I'' @ [39] @ js ''ve also included an image for additional context.'' @
                 [10, 10] @
                 js ''Note: Image context has been provided for additional guidance.''" for data
    using u by (simp add: user_message_text image_sentence_def image_note_def)
  show ?thesis
    using k c a b sent_user_message_request [of key content] by auto
qed

theorem outbound_user_message_witness:
  "calls (serve example_env (provider_says 200 [])
      (example_request (js ''POST'') (JStr (js ''data:image/png;base64,iVBORw0KGgo='')))) =
     [provider_request (js ''secret'')
        (js ''Create a routine based on this description: '' @ [34] @
         js ''30-minute morning energizer'' @ [34] @
         js ''. I'' @ [39] @ js ''ve also included an image for additional context.'' @
         [10, 10] @
         js ''Note: Image context has been provided for additional guidance.'')]"
proof -
  let ?img = "js ''data:image/png;base64,iVBORw0KGgo=''"
  let ?kvs = "[(js ''prompt'', JStr (js ''30-minute morning energizer'')), (js ''image'', JStr ?img)]"
  let ?req = "example_request (js ''POST'') (JStr ?img)"
  let ?fetch = "provider_says 200 []"
  let ?call = "provider_request (js ''secret'')
        (js ''Create a routine based on this description: '' @ [34] @
         js ''30-minute morning energizer'' @ [34] @ image_sentence @ image_note)"
  have b: "req_json ?req = Some (JObj ?kvs)"
    by (simp add: example_request_def)
  have p: "map_of ?kvs (js ''prompt'') = Some (JStr (js ''30-minute morning energizer''))"
    by simp
  have i: "map_of ?kvs (js ''image'') = Some (JStr ?img)" and n: "?img \<noteq> []"
    by simp_all
  have c: "calls (serve example_env ?fetch ?req) = [?call]"
    by (simp add: serve_def obtain_content_def prepare_call_def example_request_def
        example_env_def user_message_def to_string_val_def Let_def split: prod.splits sum.splits)
  then have m: "?call \<in> set (calls (serve example_env ?fetch ?req))"
    by simp
  from outbound_user_message [OF b p m] i n have "?call = provider_request (js ''secret'')
        (js ''Create a routine based on this description: '' @ [34] @
         js ''30-minute morning energizer'' @ [34] @
         js ''. I'' @ [39] @ js ''ve also included an image for additional context.'' @
         [10, 10] @
         js ''Note: Image context has been provided for additional guidance.'')"
    by (auto simp: example_env_def)
  with c show ?thesis by simp
qed

section \<open>C10: the empty image\<close>

lemma prepare_call_empty_image:
  assumes "map_of kvs (js ''image'') = Some (JStr [])"
  shows "prepare_call e \<lparr> req_method = m, req_json = Some (JObj kvs) \<rparr> =
         prepare_call e \<lparr> req_method = m, req_json = Some (JObj (AList.delete (js ''image'') kvs)) \<rparr>"
proof -
  have "map_of (AList.delete (js ''image'') kvs) (js ''prompt'') = map_of kvs (js ''prompt'')"
    by simp
  moreover have "map_of (AList.delete (js ''image'') kvs) (js ''image'') = None"
    by (simp add: delete_conv')
  ultimately show ?thesis
    using assms by (simp add: prepare_call_def user_message_def Let_def split: option.splits)
qed

lemma prepared_empty_image:
  assumes "map_of kvs (js ''image'') = Some (JStr [])"
    and "map_of kvs (js ''prompt'') = Some (JStr prompt)"
    and "gemini_api_key e = Some key" and "key \<noteq> []"
  shows "prepare_call e \<lparr> req_method = m, req_json = Some (JObj kvs) \<rparr> =
         Inr (provider_request key
                (js ''Create a routine based on this description: '' @ [34] @ prompt @ [34]))"
  using assms by (simp add: prepare_call_def user_message_text)

lemma calls_of_prepared:
  assumes "req_method req \<noteq> js ''OPTIONS''" and "prepare_call e req = Inr call"
  shows "calls (serve e fetch req) = [call]"
  using assms by (simp add: serve_def obtain_content_def split: prod.splits sum.splits)

text \<open>
  C10. Let the image property of the request body be the empty string. When the request
  is no preflight, carries a text prompt, and the key is configured, the handler makes
  exactly one call, and it is the call whose user message is the prompt in the template
  without the sentence and the note about an image. The request is served exactly as
  the same request without the image property (the same response, calls and log lines).
  The editor sends the empty string whenever no image file is selected.
\<close>

theorem empty_image_as_absent:
  assumes "map_of kvs (js ''image'') = Some (JStr [])"
  shows "(m \<noteq> js ''OPTIONS'' \<and> map_of kvs (js ''prompt'') = Some (JStr prompt) \<and>
          gemini_api_key e = Some key \<and> key \<noteq> [] \<longrightarrow>
            calls (serve e fetch \<lparr> req_method = m, req_json = Some (JObj kvs) \<rparr>) =
              [provider_request key
                 (js ''Create a routine based on this description: '' @ [34] @ prompt @ [34])] \<and>
            map sent_user_message
                (calls (serve e fetch \<lparr> req_method = m, req_json = Some (JObj kvs) \<rparr>)) =
              [Val (JStr (js ''Create a routine based on this description: '' @ [34] @
                          prompt @ [34]))]) \<and>
         serve e fetch \<lparr> req_method = m, req_json = Some (JObj kvs) \<rparr> =
           serve e fetch \<lparr> req_method = m,
                            req_json = Some (JObj (AList.delete (js ''image'') kvs)) \<rparr> \<and>
         (imageFile st = None \<and> trim (userInput st) \<noteq> [] \<longrightarrow>
            requests (generateRoutine browser_fetch st) =
              requests st @
                [\<lparr> creq_url = js ''/api/generate'', creq_method = js ''POST'',
                    creq_headers = [(js ''Content-Type'', js ''application/json'')],
                    creq_body = JObj [(js ''prompt'', JStr (userInput st)),
                                      (js ''image'', JStr [])] \<rparr>])"
proof (intro conjI impI)
  assume h: "m \<noteq> js ''OPTIONS'' \<and> map_of kvs (js ''prompt'') = Some (JStr prompt) \<and>
          gemini_api_key e = Some key \<and> key \<noteq> []"
  let ?req = "\<lparr> req_method = m, req_json = Some (JObj kvs) \<rparr>"
  from h have p: "prepare_call e ?req = Inr (provider_request key
                (js ''Create a routine based on this description: '' @ [34] @ prompt @ [34]))"
    using prepared_empty_image [OF assms] by blast
  from h have "req_method ?req \<noteq> js ''OPTIONS''"
    by simp
  from calls_of_prepared [OF this p]
  show c: "calls (serve e fetch ?req) =
      [provider_request key
         (js ''Create a routine based on this description: '' @ [34] @ prompt @ [34])]" .
  show "map sent_user_message (calls (serve e fetch ?req)) =
      [Val (JStr (js ''Create a routine based on this description: '' @ [34] @ prompt @ [34]))]"
    unfolding c by (simp add: sent_user_message_request)
next
  show "serve e fetch \<lparr> req_method = m, req_json = Some (JObj kvs) \<rparr> =
        serve e fetch \<lparr> req_method = m, req_json = Some (JObj (AList.delete (js ''image'') kvs)) \<rparr>"
    using prepare_call_empty_image [OF assms, of e m]
    by (simp add: serve_def obtain_content_def)
next
  assume "imageFile st = None \<and> trim (userInput st) \<noteq> []"
  then show "requests (generateRoutine browser_fetch st) =
              requests st @
                [\<lparr> creq_url = js ''/api/generate'', creq_method = js ''POST'',
                    creq_headers = [(js ''Content-Type'', js ''application/json'')],
                    creq_body = JObj [(js ''prompt'', JStr (userInput st)),
                                      (js ''image'', JStr [])] \<rparr>]"
    by (auto simp: generateRoutine_def generate_request_def generation_failed_def Let_def
        split: client_fetch_result.splits option.splits)
qed

theorem empty_image_as_absent_witness:
  \<open>calls (serve example_env (provider_says 200 (completion (JStr (fenced (stringify energize)))))
      (example_request (js ''POST'') (JStr []))) =
     [provider_request (js ''secret'')
        (js ''Create a routine based on this description: "30-minute morning energizer"'')] \<and>
   serve example_env (provider_says 200 (completion (JStr (fenced (stringify energize)))))
     (example_request (js ''POST'') (JStr [])) =
   serve example_env (provider_says 200 (completion (JStr (fenced (stringify energize)))))
     \<lparr> req_method = js ''POST'',
       req_json = Some (JObj [(js ''prompt'', JStr (js ''30-minute morning energizer''))]) \<rparr> \<and>
   requests (generateRoutine (\<lambda>r. NetworkError) example_editor) =
     [\<lparr> creq_url = js ''/api/generate'', creq_method = js ''POST'',
        creq_headers = [(js ''Content-Type'', js ''application/json'')],
        creq_body = JObj [(js ''prompt'', JStr (js ''30-minute morning energizer'')),
                          (js ''image'', JStr [])] \<rparr>]\<close>
proof -
  let ?kvs = "[(js ''prompt'', JStr (js ''30-minute morning energizer'')), (js ''image'', JStr [])]"
  have i: "map_of ?kvs (js ''image'') = Some (JStr [])"
    by simp
  have d: "AList.delete (js ''image'') ?kvs = [(js ''prompt'', JStr (js ''30-minute morning energizer''))]"
    by simp
  have h: "js ''POST'' \<noteq> js ''OPTIONS'' \<and>
      map_of ?kvs (js ''prompt'') = Some (JStr (js ''30-minute morning energizer'')) \<and>
      gemini_api_key example_env = Some (js ''secret'') \<and> js ''secret'' \<noteq> []"
    by (simp add: example_env_def)
  have f: "imageFile example_editor = None \<and> trim (userInput example_editor) \<noteq> []"
    by (simp add: example_editor_def initial_def trim_def is_space_def)
  have q: "requests example_editor = []"
    by (simp add: example_editor_def initial_def)
  have u: "userInput example_editor = js ''30-minute morning energizer''"
    by (simp add: example_editor_def)
  let ?fetch = "provider_says 200 (completion (JStr (fenced (stringify energize))))"
  let ?req = "\<lparr> req_method = js ''POST'', req_json = Some (JObj ?kvs) \<rparr>"
  have rq: "example_request (js ''POST'') (JStr []) = ?req"
    by (simp add: example_request_def)
  note t = empty_image_as_absent [OF i, where m = "js ''POST''"
      and prompt = "js ''30-minute morning energizer''" and e = example_env
      and key = "js ''secret''" and fetch = ?fetch
      and st = example_editor and browser_fetch = "\<lambda>r. NetworkError"]
  from t h have "calls (serve example_env ?fetch ?req) =
      [provider_request (js ''secret'')
        (js ''Create a routine based on this description: '' @ [34] @
         js ''30-minute morning energizer'' @ [34])]"
    by blast
  then have c: \<open>calls (serve example_env ?fetch ?req) =
      [provider_request (js ''secret'')
        (js ''Create a routine based on this description: "30-minute morning energizer"'')]\<close>
    by simp
  from t have "serve example_env ?fetch ?req =
      serve example_env ?fetch
        \<lparr> req_method = js ''POST'', req_json = Some (JObj (AList.delete (js ''image'') ?kvs)) \<rparr>"
    by blast
  then have s: "serve example_env ?fetch ?req =
      serve example_env ?fetch
        \<lparr> req_method = js ''POST'',
          req_json = Some (JObj [(js ''prompt'', JStr (js ''30-minute morning energizer''))]) \<rparr>"
    unfolding d .
  from t f have "requests (generateRoutine (\<lambda>r. NetworkError) example_editor) =
      requests example_editor @
        [\<lparr> creq_url = js ''/api/generate'', creq_method = js ''POST'',
            creq_headers = [(js ''Content-Type'', js ''application/json'')],
            creq_body = JObj [(js ''prompt'', JStr (userInput example_editor)),
                              (js ''image'', JStr [])] \<rparr>]"
    by blast
  then have g: "requests (generateRoutine (\<lambda>r. NetworkError) example_editor) =
        [\<lparr> creq_url = js ''/api/generate'', creq_method = js ''POST'',
            creq_headers = [(js ''Content-Type'', js ''application/json'')],
            creq_body = JObj [(js ''prompt'', JStr (js ''30-minute morning energizer'')),
                              (js ''image'', JStr [])] \<rparr>]"
    unfolding q u by simp
  show ?thesis
    unfolding rq using c s g by blast
qed
end
